theory Spec2Isabelle
  imports Main
begin

section \<open>Cell values\<close>

text \<open>
  The tables of \<^verbatim>\<open>src/app/page.tsx\<close> are \<^verbatim>\<open>any[][]\<close>: a CSV parse yields
  strings only, a spreadsheet parse also numbers and booleans, and a read past the end of
  a row yields \<^verbatim>\<open>undefined\<close>. Numeric cells are modelled as integers (printed in
  decimal, as JavaScript prints an integer of magnitude below \<open>10\<^sup>2\<^sup>1\<close>); a string is a
  list of characters with codes below 256, and the case mappings act on the ASCII letters.
\<close>

datatype cell = JUndefined | JNull | JBool bool | JNum int | JStr string

fun truthy :: "cell \<Rightarrow> bool" where
  "truthy JUndefined = False"
| "truthy JNull = False"
| "truthy (JBool b) = b"
| "truthy (JNum n) = (n \<noteq> 0)"
| "truthy (JStr s) = (s \<noteq> [])"

definition digitChar :: "nat \<Rightarrow> char" where
  "digitChar n = ''0123456789abcdef'' ! (n mod 16)"

fun showNat :: "nat \<Rightarrow> string" where
  "showNat n = (if n < 10 then [digitChar n] else showNat (n div 10) @ [digitChar (n mod 10)])"

declare showNat.simps [simp del]

text \<open>
  The decimal digits of an integer cell. JavaScript prints the same for an integer it
  holds exactly and of magnitude below \<open>10\<^sup>2\<^sup>1\<close>; larger and non-integer numbers are
  outside the model.
\<close>

definition numberToString :: "int \<Rightarrow> string" where
  "numberToString i = (if i < 0 then CHR ''-'' # showNat (nat (- i)) else showNat (nat i))"

text \<open>\<^verbatim>\<open>cell.toString()\<close>, for a cell that is neither null nor undefined.\<close>

fun toString :: "cell \<Rightarrow> string" where
  "toString (JStr s) = s"
| "toString (JNum n) = numberToString n"
| "toString (JBool b) = (if b then ''true'' else ''false'')"
| "toString JNull = []"
| "toString JUndefined = []"

text \<open>\<^verbatim>\<open>cell?.toString() || ''\<close>: null and undefined short-circuit to the empty string.\<close>

fun coerceString :: "cell \<Rightarrow> string" where
  "coerceString JUndefined = []"
| "coerceString JNull = []"
| "coerceString c = toString c"

section \<open>String operations\<close>

text \<open>
  The characters that \<^verbatim>\<open>trim\<close> strips and \<^verbatim>\<open>\s\<close> matches, among the codes below
  256: tab, line feed, vertical tab, form feed, carriage return, space, no-break space.
\<close>

definition isWhitespace :: "char \<Rightarrow> bool" where
  "isWhitespace c = (c \<in> set [CHR 0x09, CHR 0x0A, CHR 0x0B, CHR 0x0C, CHR 0x0D, CHR 0x20, CHR 0xA0])"

definition isDigit :: "char \<Rightarrow> bool" where
  "isDigit c = (c \<in> set ''0123456789'')"

definition lowerLetters :: string where
  "lowerLetters = ''abcdefghijklmnopqrstuvwxyz''"

definition upperLetters :: string where
  "upperLetters = ''ABCDEFGHIJKLMNOPQRSTUVWXYZ''"

definition isLetter :: "char \<Rightarrow> bool" where
  "isLetter c = (c \<in> set lowerLetters \<or> c \<in> set upperLetters)"

definition trim :: "string \<Rightarrow> string" where
  "trim s = rev (dropWhile isWhitespace (rev (dropWhile isWhitespace s)))"

text \<open>
  \<^verbatim>\<open>toUpperCase\<close> and \<^verbatim>\<open>toLowerCase\<close> on the ASCII letters. The letters with codes
  above 127, which JavaScript also maps, are left as they are: the model covers ASCII text.
\<close>

definition upperChar :: "char \<Rightarrow> char" where
  "upperChar c = (case map_of (zip lowerLetters upperLetters) c of None \<Rightarrow> c | Some u \<Rightarrow> u)"

definition lowerChar :: "char \<Rightarrow> char" where
  "lowerChar c = (case map_of (zip upperLetters lowerLetters) c of None \<Rightarrow> c | Some l \<Rightarrow> l)"

definition toUpperCase :: "string \<Rightarrow> string" where
  "toUpperCase s = map upperChar s"

definition toLowerCase :: "string \<Rightarrow> string" where
  "toLowerCase s = map lowerChar s"

text \<open>\<^verbatim>\<open>cellValue.replace(/[^a-zA-Z0-9\s]/g, '')\<close>\<close>

definition removeSpecial :: "string \<Rightarrow> string" where
  "removeSpecial s = filter (\<lambda>c. isLetter c \<or> isDigit c \<or> isWhitespace c) s"

text \<open>
  \<^verbatim>\<open>/^0+\d/.test(cellValue)\<close>: the matcher consumes one zero, then either finds the digit
  or consumes another zero and goes on.
\<close>

fun digitAfterZeros :: "string \<Rightarrow> bool" where
  "digitAfterZeros [] = False"
| "digitAfterZeros (c # cs) = (isDigit c \<or> (c = CHR ''0'' \<and> digitAfterZeros cs))"

fun testLeadingZeros :: "string \<Rightarrow> bool" where
  "testLeadingZeros [] = False"
| "testLeadingZeros (c # cs) = (c = CHR ''0'' \<and> digitAfterZeros cs)"

text \<open>\<^verbatim>\<open>cellValue.replace(/^0+/, '')\<close>: the greedy run of zeros at the start is deleted.\<close>

definition stripLeadingZeros :: "string \<Rightarrow> string" where
  "stripLeadingZeros s = dropWhile (\<lambda>c. c = CHR ''0'') s"

section \<open>The row key of the duplicate check\<close>

text \<open>
  \<^verbatim>\<open>JSON.stringify(row)\<close> on an array of primitive cells: strings are quoted with the
  escapes of the language standard, numbers are printed, \<^verbatim>\<open>null\<close> and
  \<^verbatim>\<open>undefined\<close> both print as \<^verbatim>\<open>null\<close>. The numbers of the model are integers,
  so the non-finite numbers, which also print as \<^verbatim>\<open>null\<close>, do not occur.
\<close>

definition jsonEscape :: "char \<Rightarrow> string" where
  "jsonEscape c =
     (if c = CHR 0x22 then [CHR 0x5C, CHR 0x22]
      else if c = CHR 0x5C then [CHR 0x5C, CHR 0x5C]
      else if c = CHR 0x08 then [CHR 0x5C, CHR ''b'']
      else if c = CHR 0x0C then [CHR 0x5C, CHR ''f'']
      else if c = CHR 0x0A then [CHR 0x5C, CHR ''n'']
      else if c = CHR 0x0D then [CHR 0x5C, CHR ''r'']
      else if c = CHR 0x09 then [CHR 0x5C, CHR ''t'']
      else if (of_char c :: nat) < 32
        then [CHR 0x5C, CHR ''u'', CHR ''0'', CHR ''0'',
              digitChar (of_char c div 16), digitChar (of_char c mod 16)]
      else [c])"

definition jsonQuote :: "string \<Rightarrow> string" where
  "jsonQuote s = CHR 0x22 # concat (map jsonEscape s) @ [CHR 0x22]"

fun jsonCell :: "cell \<Rightarrow> string" where
  "jsonCell (JStr s) = jsonQuote s"
| "jsonCell (JNum n) = numberToString n"
| "jsonCell (JBool b) = (if b then ''true'' else ''false'')"
| "jsonCell JNull = ''null''"
| "jsonCell JUndefined = ''null''"

fun jsonElements :: "cell list \<Rightarrow> string" where
  "jsonElements [] = ''''"
| "jsonElements [c] = jsonCell c"
| "jsonElements (c # d # ds) = jsonCell c @ '','' @ jsonElements (d # ds)"

definition JSON_stringify :: "cell list \<Rightarrow> string" where
  "JSON_stringify row = ''['' @ jsonElements row @ '']''"

section \<open>The cleaning function\<close>

text \<open>
  Of the fields of \<^verbatim>\<open>UploadedFile\<close>, \<^verbatim>\<open>cleanData\<close> reads \<^verbatim>\<open>data\<close> and
  \<^verbatim>\<open>headers\<close> only; both are optional, and \<^verbatim>\<open>parseFile\<close> sets
  \<^verbatim>\<open>headers = data[0] || []\<close>. A header list is a \<^verbatim>\<open>string[]\<close>.
\<close>

record UploadedFile =
  name :: string
  data :: "cell list list option"
  headers :: "string list option"

record CleaningOptions =
  removeDuplicates :: bool
  removeEmptyRows :: bool
  removeEmptyColumns :: bool
  trimWhitespace :: bool
  normalizeText :: bool
  removeSpecialCharacters :: bool
  standardizeDates :: bool
  convertToUppercase :: bool
  convertToLowercase :: bool
  removeLeadingZeros :: bool

record CleaningResult =
  totalRowsCleaned :: int
  columnsDeleted :: int
  duplicateRowsRemoved :: int
  cleanedData :: "cell list list"

datatype js_error = Error string

text \<open>\<^verbatim>\<open>xs.indexOf(x)\<close>: the first position holding \<open>x\<close>, or \<open>-1\<close>.\<close>

fun indexOf :: "'a list \<Rightarrow> 'a \<Rightarrow> int" where
  "indexOf [] x = - 1"
| "indexOf (y # ys) x =
     (if y = x then 0 else (let i = indexOf ys x in if i = - 1 then - 1 else i + 1))"

text \<open>\<^verbatim>\<open>row[colIndex]\<close>: a read outside the row yields \<^verbatim>\<open>undefined\<close>.\<close>

definition cellAt :: "cell list \<Rightarrow> int \<Rightarrow> cell" where
  "cellAt row i = (if 0 \<le> i \<and> nat i < length row then row ! nat i else JUndefined)"

text \<open>\<^verbatim>\<open>value || ''\<close>\<close>

definition orEmpty :: "cell \<Rightarrow> cell" where
  "orEmpty c = (if truthy c then c else JStr [])"

text \<open>
  Step 1, the \<^verbatim>\<open>forEach\<close> over the template headers that pushes onto
  \<^verbatim>\<open>columnsToKeep\<close> and \<^verbatim>\<open>keptHeaders\<close>.
\<close>

fun findColumns :: "string list \<Rightarrow> string list \<Rightarrow> int list \<times> string list" where
  "findColumns dataHeaders [] = ([], [])"
| "findColumns dataHeaders (templateHeader # rest) =
     (let dataIndex = indexOf dataHeaders templateHeader;
          (columnsToKeep, keptHeaders) = findColumns dataHeaders rest
      in if dataIndex \<noteq> - 1
         then (dataIndex # columnsToKeep, templateHeader # keptHeaders)
         else (columnsToKeep, keptHeaders))"

text \<open>Step 2, \<^verbatim>\<open>originalData.map(row => columnsToKeep.map(colIndex => row[colIndex] || ''))\<close>.\<close>

definition projectRow :: "int list \<Rightarrow> cell list \<Rightarrow> cell list" where
  "projectRow columnsToKeep row = map (\<lambda>colIndex. orEmpty (cellAt row colIndex)) columnsToKeep"

definition filterColumns :: "int list \<Rightarrow> cell list list \<Rightarrow> cell list list" where
  "filterColumns columnsToKeep originalData = map (projectRow columnsToKeep) originalData"

text \<open>
  The duplicate loop: the state is the set \<^verbatim>\<open>seenRows\<close>, the list
  \<^verbatim>\<open>uniqueRows\<close> and the counter \<^verbatim>\<open>duplicateRowsRemoved\<close>.
\<close>

fun dedupLoop ::
  "cell list list \<Rightarrow> string set \<Rightarrow> cell list list \<Rightarrow> int \<Rightarrow> cell list list \<times> int" where
  "dedupLoop [] seenRows uniqueRows removed = (uniqueRows, removed)"
| "dedupLoop (row # rows) seenRows uniqueRows removed =
     (let rowKey = JSON_stringify row
      in if rowKey \<notin> seenRows
         then dedupLoop rows (insert rowKey seenRows) (uniqueRows @ [row]) removed
         else dedupLoop rows seenRows uniqueRows (removed + 1))"

text \<open>\<^verbatim>\<open>row.some(cell => cell && cell.toString().trim() !== '')\<close>\<close>

definition rowHasContent :: "cell list \<Rightarrow> bool" where
  "rowHasContent row = list_ex (\<lambda>cell. truthy cell \<and> trim (toString cell) \<noteq> []) row"

definition anyTextOption :: "CleaningOptions \<Rightarrow> bool" where
  "anyTextOption options =
     (trimWhitespace options \<or> convertToUppercase options \<or> convertToLowercase options
      \<or> removeSpecialCharacters options \<or> removeLeadingZeros options)"

definition transformCell :: "CleaningOptions \<Rightarrow> cell \<Rightarrow> cell" where
  "transformCell options cell =
     (let v0 = coerceString cell;
          v1 = (if trimWhitespace options then trim v0 else v0);
          v2 = (if convertToUppercase options then toUpperCase v1
                else if convertToLowercase options then toLowerCase v1 else v1);
          v3 = (if removeSpecialCharacters options then removeSpecial v2 else v2);
          v4 = (if removeLeadingZeros options \<and> testLeadingZeros v3
                then stripLeadingZeros v3 else v3)
      in JStr v4)"

text \<open>Step 3 on the data rows: the three option stages in the order of the source.\<close>

definition dedupStage :: "CleaningOptions \<Rightarrow> cell list list \<Rightarrow> cell list list \<times> int" where
  "dedupStage options dataRows =
     (if removeDuplicates options then dedupLoop dataRows {} [] 0 else (dataRows, 0))"

definition emptyRowStage :: "CleaningOptions \<Rightarrow> cell list list \<Rightarrow> cell list list" where
  "emptyRowStage options dataRows =
     (if removeEmptyRows options then filter rowHasContent dataRows else dataRows)"

definition textStage :: "CleaningOptions \<Rightarrow> cell list list \<Rightarrow> cell list list" where
  "textStage options dataRows =
     (if anyTextOption options then map (map (transformCell options)) dataRows else dataRows)"

definition applyOptions :: "CleaningOptions \<Rightarrow> cell list list \<Rightarrow> cell list list \<times> int" where
  "applyOptions options table =
     (if length table > 1
      then (case table of
              [] \<Rightarrow> (table, 0)
            | header # dataRows \<Rightarrow>
                (let (uniqueRows, removed) = dedupStage options dataRows
                 in (header # textStage options (emptyRowStage options uniqueRows), removed)))
      else (table, 0))"

definition cleanData ::
  "UploadedFile \<Rightarrow> UploadedFile \<Rightarrow> CleaningOptions \<Rightarrow> js_error + CleaningResult" where
  "cleanData dataFile templateFile options =
     (case (data dataFile, data templateFile, headers dataFile, headers templateFile) of
        (Some originalData, Some templateData, Some dataHeaders, Some templateHeaders) \<Rightarrow>
          (let (columnsToKeep, keptHeaders) = findColumns dataHeaders templateHeaders;
               filteredData = filterColumns columnsToKeep originalData;
               (cleaned, removed) = applyOptions options filteredData
           in Inr \<lparr>totalRowsCleaned = int (length cleaned) - 1,
                   columnsDeleted = int (length dataHeaders) - int (length keptHeaders),
                   duplicateRowsRemoved = removed,
                   cleanedData = cleaned\<rparr>)
      | _ \<Rightarrow> Inl (Error ''File data is not available''))"

text \<open>The initial value of the \<^verbatim>\<open>cleaningOptions\<close> state: every flag off.\<close>

definition noOptions :: CleaningOptions where
  "noOptions =
     \<lparr>removeDuplicates = False, removeEmptyRows = False, removeEmptyColumns = False,
      trimWhitespace = False, normalizeText = False, removeSpecialCharacters = False,
      standardizeDates = False, convertToUppercase = False, convertToLowercase = False,
      removeLeadingZeros = False\<rparr>"

section \<open>Notions of the specification\<close>

text \<open>
  The subsequence of the template's header names that also occur in the data header,
  in template order.
\<close>

definition commonHeaders :: "string list \<Rightarrow> string list \<Rightarrow> string list" where
  "commonHeaders templateHeaders dataHeaders =
     filter (\<lambda>h. h \<in> set dataHeaders) templateHeaders"

text \<open>The header row of the cleaned table, when the call returned a table that has a row.\<close>

definition headerRow :: "js_error + CleaningResult \<Rightarrow> cell list option" where
  "headerRow res =
     (case res of
        Inl e \<Rightarrow> None
      | Inr r \<Rightarrow> (case cleanedData r of [] \<Rightarrow> None | h # rows \<Rightarrow> Some h))"

text \<open>The data rows of a table: every row after the first.\<close>

definition dataRowsOf :: "cell list list \<Rightarrow> cell list list" where
  "dataRowsOf table = drop 1 table"

text \<open>A file as \<^verbatim>\<open>parseFile\<close> builds it from a header and data rows: row 0 is the header.\<close>

definition parsedFile :: "string list \<Rightarrow> cell list list \<Rightarrow> UploadedFile" where
  "parsedFile hs rows = \<lparr>name = ''file.csv'', data = Some (map JStr hs # rows), headers = Some hs\<rparr>"

text \<open>The file \<^verbatim>\<open>parseFile\<close> builds from an input without any row.\<close>

definition emptyFile :: UploadedFile where
  "emptyFile = \<lparr>name = ''empty.csv'', data = Some [], headers = Some []\<rparr>"

text \<open>A cell that is either truthy or the empty string.\<close>

definition plainCell :: "cell \<Rightarrow> bool" where
  "plainCell c = (truthy c \<or> c = JStr [])"

text \<open>Every flag on.\<close>

definition allOptions :: CleaningOptions where
  "allOptions =
     \<lparr>removeDuplicates = True, removeEmptyRows = True, removeEmptyColumns = True,
      trimWhitespace = True, normalizeText = True, removeSpecialCharacters = True,
      standardizeDates = True, convertToUppercase = True, convertToLowercase = True,
      removeLeadingZeros = True\<rparr>"

text \<open>
  The rows the duplicate loop appends to \<^verbatim>\<open>uniqueRows\<close>, as a function of the keys
  seen so far.
\<close>

fun keepNew :: "string set \<Rightarrow> cell list list \<Rightarrow> cell list list" where
  "keepNew seen [] = []"
| "keepNew seen (row # rows) =
     (if JSON_stringify row \<in> seen then keepNew seen rows
      else row # keepNew (insert (JSON_stringify row) seen) rows)"

text \<open>
  A cell whose string coercion is non-empty after the whitespace trim, and a row that has
  such a cell.
\<close>

definition cellHasText :: "cell \<Rightarrow> bool" where
  "cellHasText c = (trim (coerceString c) \<noteq> [])"

definition rowHasText :: "cell list \<Rightarrow> bool" where
  "rowHasText row = list_ex cellHasText row"

text \<open>
  The rows kept when the rows are walked in order and each row equal to an earlier one is
  dropped: row \<open>i\<close> is kept when it does not occur among the rows before it.
\<close>

definition firstOccurrences :: "'a list \<Rightarrow> 'a list" where
  "firstOccurrences xs =
     map (\<lambda>i. xs ! i) (filter (\<lambda>i. xs ! i \<notin> set (take i xs)) [0..<length xs])"

text \<open>
  What follows the first cell in the key of a row: the closing bracket, or a comma and
  the next cell.
\<close>

fun jsonRest :: "cell list \<Rightarrow> string" where
  "jsonRest [] = '']''"
| "jsonRest (c # cs) = '','' @ jsonCell c @ jsonRest cs"

text \<open>A string that is empty or starts with a character that is not a digit.\<close>

definition stopsDigits :: "string \<Rightarrow> bool" where
  "stopsDigits r = (case r of [] \<Rightarrow> True | x # xs \<Rightarrow> \<not> isDigit x)"

text \<open>A string that starts with a comma or with a closing bracket.\<close>

definition endsCell :: "string \<Rightarrow> bool" where
  "endsCell r = (\<exists>xs. r = CHR '','' # xs \<or> r = CHR '']'' # xs)"

section \<open>Column alignment\<close>

lemma indexOf_ge: "- 1 \<le> indexOf ys x"
  by (induction ys) (auto simp: Let_def)

lemma indexOf_absent: "indexOf ys x = - 1 \<longleftrightarrow> x \<notin> set ys"
proof (induction ys)
  case Nil
  show ?case by simp
next
  case (Cons y ys)
  have "- 1 \<le> indexOf ys x" by (rule indexOf_ge)
  with Cons show ?case by (auto simp: Let_def)
qed

lemma indexOf_found:
  "x \<in> set ys \<Longrightarrow>
     0 \<le> indexOf ys x \<and> nat (indexOf ys x) < length ys \<and> ys ! nat (indexOf ys x) = x"
proof (induction ys)
  case Nil
  then show ?case by simp
next
  case (Cons y ys)
  show ?case
  proof (cases "y = x")
    case True
    then show ?thesis by simp
  next
    case False
    with Cons.prems have mem: "x \<in> set ys" by simp
    from Cons.IH [OF mem] have ih: "0 \<le> indexOf ys x" "nat (indexOf ys x) < length ys"
      "ys ! nat (indexOf ys x) = x" by simp_all
    from ih(1) have "nat (indexOf ys x + 1) = Suc (nat (indexOf ys x))" by simp
    with False ih show ?thesis by (simp add: Let_def)
  qed
qed

lemma indexOf_first:
  "x \<in> set ys \<Longrightarrow> j < nat (indexOf ys x) \<Longrightarrow> ys ! j \<noteq> x"
proof (induction ys arbitrary: j)
  case Nil
  then show ?case by simp
next
  case (Cons y ys)
  show ?case
  proof (cases "y = x")
    case True
    with Cons.prems show ?thesis by simp
  next
    case False
    with Cons.prems have mem: "x \<in> set ys" by simp
    from indexOf_found [OF mem] have nn: "0 \<le> indexOf ys x" by simp
    then have eq: "nat (indexOf ys x + 1) = Suc (nat (indexOf ys x))" by simp
    from mem have "indexOf ys x \<noteq> - 1" by (simp add: indexOf_absent)
    with False Cons.prems eq have jlt: "j < Suc (nat (indexOf ys x))" by (simp add: Let_def)
    show ?thesis
    proof (cases j)
      case 0
      with False show ?thesis by simp
    next
      case (Suc k)
      with jlt have "k < nat (indexOf ys x)" by simp
      from Cons.IH [OF mem this] Suc show ?thesis by simp
    qed
  qed
qed

lemma findColumns_eq:
  "findColumns dh th = (map (indexOf dh) (commonHeaders th dh), commonHeaders th dh)"
  by (induction th) (auto simp: commonHeaders_def Let_def indexOf_absent split: prod.splits)

lemma cellAt_indexOf: "h \<in> set hs \<Longrightarrow> cellAt (map f hs) (indexOf hs h) = f h"
  using indexOf_found [of h hs] by (simp add: cellAt_def)

lemma orEmpty_JStr [simp]: "orEmpty (JStr s) = JStr s"
  by (simp add: orEmpty_def)

lemma orEmpty_idem [simp]: "orEmpty (orEmpty c) = orEmpty c"
  by (simp add: orEmpty_def)

lemma project_header_row:
  "projectRow (map (indexOf hs) (commonHeaders th hs)) (map JStr hs) = map JStr (commonHeaders th hs)"
  by (simp add: projectRow_def commonHeaders_def cellAt_indexOf o_def cong: map_cong)

section \<open>The shape of the result\<close>

lemma cleanData_present:
  assumes "data d = Some rows" "data t = Some trows" "headers d = Some dh" "headers t = Some th"
  shows "cleanData d t opts =
    Inr \<lparr>totalRowsCleaned =
           int (length (fst (applyOptions opts
             (filterColumns (map (indexOf dh) (commonHeaders th dh)) rows)))) - 1,
         columnsDeleted = int (length dh) - int (length (commonHeaders th dh)),
         duplicateRowsRemoved =
           snd (applyOptions opts (filterColumns (map (indexOf dh) (commonHeaders th dh)) rows)),
         cleanedData =
           fst (applyOptions opts (filterColumns (map (indexOf dh) (commonHeaders th dh)) rows))\<rparr>"
  using assms by (simp add: cleanData_def findColumns_eq split: prod.splits)

lemma applyOptions_short: "length tb < 2 \<Longrightarrow> applyOptions opts tb = (tb, 0)"
  by (simp add: applyOptions_def)

lemma applyOptions_long:
  "applyOptions opts (h # r # rs) =
     (h # textStage opts (emptyRowStage opts (fst (dedupStage opts (r # rs)))),
      snd (dedupStage opts (r # rs)))"
  by (simp add: applyOptions_def split: prod.splits)

lemma applyOptions_header:
  "fst (applyOptions opts (h # rs)) =
     h # textStage opts (emptyRowStage opts (fst (dedupStage opts rs)))"
proof (cases rs)
  case Nil
  then show ?thesis
    by (simp add: applyOptions_def textStage_def emptyRowStage_def dedupStage_def)
next
  case (Cons r rs')
  then show ?thesis by (simp add: applyOptions_long)
qed

section \<open>C1: the header row of the cleaned table\<close>

text \<open>
  Claim C1, as amended. For every template table and every data table that has at least one
  row, row 0 being its header list, the header row of the cleaned table is the subsequence
  of the template's header names that also occur in the data header, in template order;
  the kept column of each such name is its first position in the data header.
\<close>

theorem header_row_follows_template:
  assumes "data d = Some (map JStr dh # rows)" and "headers d = Some dh"
    and "data t = Some trows" and "headers t = Some th"
  shows "headerRow (cleanData d t opts) = Some (map JStr (commonHeaders th dh))
    \<and> findColumns dh th = (map (indexOf dh) (commonHeaders th dh), commonHeaders th dh)
    \<and> (\<forall>h \<in> set (commonHeaders th dh).
          0 \<le> indexOf dh h \<and> nat (indexOf dh h) < length dh \<and> dh ! nat (indexOf dh h) = h
          \<and> (\<forall>j < nat (indexOf dh h). dh ! j \<noteq> h))"
proof -
  have "filterColumns (map (indexOf dh) (commonHeaders th dh)) (map JStr dh # rows)
        = map JStr (commonHeaders th dh) # filterColumns (map (indexOf dh) (commonHeaders th dh)) rows"
    by (simp add: filterColumns_def project_header_row)
  then have hr: "headerRow (cleanData d t opts) = Some (map JStr (commonHeaders th dh))"
    using assms by (simp add: cleanData_present headerRow_def applyOptions_header)
  have first: "\<forall>h \<in> set (commonHeaders th dh).
          0 \<le> indexOf dh h \<and> nat (indexOf dh h) < length dh \<and> dh ! nat (indexOf dh h) = h
          \<and> (\<forall>j < nat (indexOf dh h). dh ! j \<noteq> h)"
  proof
    fix h assume "h \<in> set (commonHeaders th dh)"
    then have mem: "h \<in> set dh" by (simp add: commonHeaders_def)
    from indexOf_found [OF mem] indexOf_first [OF mem]
    show "0 \<le> indexOf dh h \<and> nat (indexOf dh h) < length dh \<and> dh ! nat (indexOf dh h) = h
          \<and> (\<forall>j < nat (indexOf dh h). dh ! j \<noteq> h)"
      by blast
  qed
  from hr findColumns_eq [of dh th] first show ?thesis by (intro conjI)
qed

text \<open>Claim C1, the amended statement at a concrete pair of tables.\<close>

theorem header_row_follows_template_witness:
  "headerRow (cleanData (parsedFile [''Name'', ''Age'', ''Extra''] [[JStr ''Alice'', JStr ''30'', JStr ''x'']])
       (parsedFile [''Age'', ''Phone'', ''Name''] []) noOptions)
   = Some [JStr ''Age'', JStr ''Name'']"
proof -
  have d1: "data (parsedFile [''Name'', ''Age'', ''Extra''] [[JStr ''Alice'', JStr ''30'', JStr ''x'']])
      = Some (map JStr [''Name'', ''Age'', ''Extra''] # [[JStr ''Alice'', JStr ''30'', JStr ''x'']])"
    by (simp add: parsedFile_def)
  have d2: "headers (parsedFile [''Name'', ''Age'', ''Extra''] [[JStr ''Alice'', JStr ''30'', JStr ''x'']])
      = Some [''Name'', ''Age'', ''Extra'']"
    by (simp add: parsedFile_def)
  have t1: "data (parsedFile [''Age'', ''Phone'', ''Name''] [])
      = Some [map JStr [''Age'', ''Phone'', ''Name'']]"
    by (simp add: parsedFile_def)
  have t2: "headers (parsedFile [''Age'', ''Phone'', ''Name''] []) = Some [''Age'', ''Phone'', ''Name'']"
    by (simp add: parsedFile_def)
  show ?thesis
    using header_row_follows_template [OF d1 d2 t1 t2, of noOptions]
    by (simp add: commonHeaders_def)
qed

text \<open>
  Claim C1 as stated fails for a data table without any row: the cleaned table then has no
  row at all, hence no header row, while the claimed header row is the empty subsequence.
\<close>

theorem header_row_empty_data_counterexample:
  "headerRow (cleanData emptyFile (parsedFile [''Name''] []) noOptions)
     \<noteq> Some (map JStr (commonHeaders [''Name''] []))"
  by (simp add: headerRow_def cleanData_def emptyFile_def parsedFile_def filterColumns_def
      applyOptions_def commonHeaders_def)

section \<open>C4: the count of deleted columns\<close>

lemma commonHeaders_length_le:
  assumes "distinct th" shows "length (commonHeaders th dh) \<le> length dh"
proof -
  have d: "distinct (commonHeaders th dh)" using assms by (simp add: commonHeaders_def)
  have "set (commonHeaders th dh) \<subseteq> set dh" by (auto simp: commonHeaders_def)
  then have "card (set (commonHeaders th dh)) \<le> card (set dh)" by (simp add: card_mono)
  also have "\<dots> \<le> length dh" by (rule card_length)
  finally show ?thesis using d by (simp add: distinct_card)
qed

text \<open>
  Claim C4, as amended. \<open>columnsDeleted\<close> is the length of the data header list minus the
  number of kept headers (one per template header that occurs in the data header). It is
  at least zero when the template's header names are distinct, and it is the number of
  distinct data headers minus the number of kept headers when the data header names are
  distinct.
\<close>

theorem columns_deleted_count:
  assumes "cleanData d t opts = Inr r" and "headers d = Some dh" and "headers t = Some th"
  shows "columnsDeleted r = int (length dh) - int (length (commonHeaders th dh))
    \<and> (distinct th \<longrightarrow> 0 \<le> columnsDeleted r)
    \<and> (distinct dh \<longrightarrow> columnsDeleted r = int (card (set dh)) - int (length (commonHeaders th dh)))"
proof -
  from assms obtain rows trows where p: "data d = Some rows" "data t = Some trows"
    by (auto simp: cleanData_def split: option.splits)
  from cleanData_present [OF p assms(2,3), of opts] assms(1)
  have c: "columnsDeleted r = int (length dh) - int (length (commonHeaders th dh))" by auto
  show ?thesis using c commonHeaders_length_le [of th dh] by (auto simp: distinct_card)
qed

text \<open>Claim C4, the amended statement at a concrete pair of tables with distinct names.\<close>

theorem columns_deleted_count_witness:
  "cleanData (parsedFile [''Name'', ''Age'', ''Extra''] []) (parsedFile [''Name'', ''Age''] []) noOptions
     = Inr \<lparr>totalRowsCleaned = 0, columnsDeleted = 1, duplicateRowsRemoved = 0,
            cleanedData = [[JStr ''Name'', JStr ''Age'']]\<rparr>
   \<and> distinct [''Name'', ''Age''] \<and> distinct [''Name'', ''Age'', ''Extra'']
   \<and> (1::int) = int (card (set [''Name'', ''Age'', ''Extra''])) - int (length (commonHeaders [''Name'', ''Age''] [''Name'', ''Age'', ''Extra'']))"
proof -
  have e: "cleanData (parsedFile [''Name'', ''Age'', ''Extra''] []) (parsedFile [''Name'', ''Age''] []) noOptions
     = Inr \<lparr>totalRowsCleaned = 0, columnsDeleted = 1, duplicateRowsRemoved = 0,
            cleanedData = [[JStr ''Name'', JStr ''Age'']]\<rparr>"
    by code_simp
  have h1: "headers (parsedFile [''Name'', ''Age'', ''Extra''] []) = Some [''Name'', ''Age'', ''Extra'']"
    by (simp add: parsedFile_def)
  have h2: "headers (parsedFile [''Name'', ''Age''] []) = Some [''Name'', ''Age'']"
    by (simp add: parsedFile_def)
  show ?thesis using columns_deleted_count [OF e h1 h2] e by simp
qed

text \<open>
  Claim C4 as stated fails when a header name is repeated. When the template repeats a
  name, every occurrence is kept and \<open>columnsDeleted\<close> is negative; when the data header
  repeats a name, \<open>columnsDeleted\<close> counts both occurrences, not the distinct names.
\<close>

theorem columns_deleted_negative_counterexample:
  "cleanData (parsedFile [''Name''] []) (parsedFile [''Name'', ''Name''] []) noOptions
     = Inr \<lparr>totalRowsCleaned = 0, columnsDeleted = - 1, duplicateRowsRemoved = 0,
            cleanedData = [[JStr ''Name'', JStr ''Name'']]\<rparr>
   \<and> cleanData (parsedFile [''Name'', ''Name''] []) (parsedFile [''Name''] []) noOptions
     = Inr \<lparr>totalRowsCleaned = 0, columnsDeleted = 1, duplicateRowsRemoved = 0,
            cleanedData = [[JStr ''Name'']]\<rparr>
   \<and> int (card (set [''Name'', ''Name''])) - int (length (commonHeaders [''Name''] [''Name'', ''Name'']))
     \<noteq> (1::int)"
proof -
  have a: "cleanData (parsedFile [''Name''] []) (parsedFile [''Name'', ''Name''] []) noOptions
     = Inr \<lparr>totalRowsCleaned = 0, columnsDeleted = - 1, duplicateRowsRemoved = 0,
            cleanedData = [[JStr ''Name'', JStr ''Name'']]\<rparr>"
    by code_simp
  have b: "cleanData (parsedFile [''Name'', ''Name''] []) (parsedFile [''Name''] []) noOptions
     = Inr \<lparr>totalRowsCleaned = 0, columnsDeleted = 1, duplicateRowsRemoved = 0,
            cleanedData = [[JStr ''Name'']]\<rparr>"
    by code_simp
  have c: "int (card (set [''Name'', ''Name''])) - int (length (commonHeaders [''Name''] [''Name'', ''Name'']))
     \<noteq> (1::int)"
    by (simp add: commonHeaders_def)
  from a b c show ?thesis by (intro conjI)
qed

section \<open>The option stages\<close>

lemma keepNew_length: "length (keepNew seen rows) \<le> length rows"
  by (induction rows arbitrary: seen) (auto simp: le_SucI)

lemma keepNew_subset: "set (keepNew seen rows) \<subseteq> set rows"
  by (induction rows arbitrary: seen) auto

lemma dedupLoop_eq:
  "dedupLoop rows seen uniq n =
     (uniq @ keepNew seen rows, n + int (length rows) - int (length (keepNew seen rows)))"
  by (induction rows arbitrary: seen uniq n) (auto simp: Let_def)

lemma dedupStage_subset: "set (fst (dedupStage opts rows)) \<subseteq> set rows"
  by (simp add: dedupStage_def dedupLoop_eq keepNew_subset)

lemma applyOptions_noOptions: "applyOptions noOptions tb = (tb, 0)"
  by (cases tb)
    (simp_all add: applyOptions_def dedupStage_def emptyRowStage_def textStage_def
      anyTextOption_def noOptions_def)

lemma plainCell_orEmpty [simp]: "plainCell (orEmpty c)"
  by (simp add: plainCell_def orEmpty_def)

lemma plainCell_JStr [simp]: "plainCell (JStr s)"
  by (cases s) (simp_all add: plainCell_def)

lemma projectRow_plain: "c \<in> set (projectRow cols row) \<Longrightarrow> plainCell c"
  by (auto simp: projectRow_def)

lemma filterColumns_plain:
  "row \<in> set (filterColumns cols rows) \<Longrightarrow> c \<in> set row \<Longrightarrow> plainCell c"
  by (auto simp: filterColumns_def projectRow_plain)

lemma textStage_plain:
  assumes "\<And>row c. row \<in> set rows \<Longrightarrow> c \<in> set row \<Longrightarrow> plainCell c"
    and "row \<in> set (textStage opts rows)" and "c \<in> set row"
  shows "plainCell c"
  using assms by (auto simp: textStage_def transformCell_def Let_def split: if_splits)

lemma emptyRowStage_subset: "set (emptyRowStage opts rows) \<subseteq> set rows"
  by (auto simp: emptyRowStage_def)

lemma applyOptions_plain:
  assumes all: "\<And>row c. row \<in> set tb \<Longrightarrow> c \<in> set row \<Longrightarrow> plainCell c"
    and row: "row \<in> set (fst (applyOptions opts tb))" and c: "c \<in> set row"
  shows "plainCell c"
proof (cases tb)
  case Nil
  with row show ?thesis by (simp add: applyOptions_def)
next
  case (Cons h rs)
  from row Cons have "row = h \<or> row \<in> set (textStage opts (emptyRowStage opts (fst (dedupStage opts rs))))"
    by (simp add: applyOptions_header)
  then show ?thesis
  proof
    assume "row = h"
    with Cons have "row \<in> set tb" by simp
    from all [OF this c] show ?thesis .
  next
    assume mem: "row \<in> set (textStage opts (emptyRowStage opts (fst (dedupStage opts rs))))"
    have sub: "set (emptyRowStage opts (fst (dedupStage opts rs))) \<subseteq> set tb"
      using emptyRowStage_subset [of opts "fst (dedupStage opts rs)"] dedupStage_subset [of opts rs] Cons
      by auto
    show ?thesis
    proof (rule textStage_plain [OF _ mem c])
      fix row' c' assume "row' \<in> set (emptyRowStage opts (fst (dedupStage opts rs)))" "c' \<in> set row'"
      with sub all show "plainCell c'" by blast
    qed
  qed
qed

lemma cleanData_plain:
  assumes "cleanData d t opts = Inr r" and "row \<in> set (cleanedData r)" and "c \<in> set row"
  shows "plainCell c"
proof -
  from assms(1) obtain rows trows dh th where p: "data d = Some rows" "data t = Some trows"
    "headers d = Some dh" "headers t = Some th"
    by (auto simp: cleanData_def split: option.splits)
  from cleanData_present [OF p, of opts] assms(1)
  have "cleanedData r = fst (applyOptions opts (filterColumns (map (indexOf dh) (commonHeaders th dh)) rows))"
    by auto
  with assms(2) have "row \<in> set (fst (applyOptions opts (filterColumns (map (indexOf dh) (commonHeaders th dh)) rows)))"
    by simp
  from applyOptions_plain [OF _ this assms(3)] filterColumns_plain show ?thesis by blast
qed

section \<open>C10: tables with fewer than two rows\<close>

text \<open>
  Claim C10. When the data list (hence the projected table) has fewer than two rows, no
  option stage runs: whatever the options, the call returns the projected table unchanged,
  with \<open>duplicateRowsRemoved = 0\<close> and \<open>totalRowsCleaned\<close> one less than the number of
  rows, which is \<open>-1\<close> for a data list that is present but empty.
\<close>

theorem short_table_skips_options:
  assumes "data d = Some rows" and "length rows < 2" and "data t = Some trows"
    and "headers d = Some dh" and "headers t = Some th"
  shows "cleanData d t opts =
    Inr \<lparr>totalRowsCleaned = int (length rows) - 1,
         columnsDeleted = int (length dh) - int (length (snd (findColumns dh th))),
         duplicateRowsRemoved = 0,
         cleanedData = filterColumns (fst (findColumns dh th)) rows\<rparr>"
proof -
  have "length (filterColumns (fst (findColumns dh th)) rows) < 2"
    using assms(2) by (simp add: filterColumns_def)
  then have "applyOptions opts (filterColumns (fst (findColumns dh th)) rows)
      = (filterColumns (fst (findColumns dh th)) rows, 0)"
    by (rule applyOptions_short)
  then show ?thesis
    using assms by (simp add: cleanData_present findColumns_eq filterColumns_def)
qed

text \<open>
  Claim C10 at the empty data list with every option on: no error, and
  \<open>totalRowsCleaned = -1\<close>.
\<close>

theorem short_table_skips_options_witness:
  "cleanData emptyFile (parsedFile [''Name''] []) allOptions =
     Inr \<lparr>totalRowsCleaned = - 1, columnsDeleted = 0, duplicateRowsRemoved = 0,
          cleanedData = []\<rparr>"
proof -
  have d1: "data emptyFile = Some []" and d2: "headers emptyFile = Some []"
    by (simp_all add: emptyFile_def)
  have l: "length ([] :: cell list list) < 2" by simp
  have t1: "data (parsedFile [''Name''] []) = Some [map JStr [''Name'']]"
    and t2: "headers (parsedFile [''Name''] []) = Some [''Name'']"
    by (simp_all add: parsedFile_def)
  show ?thesis
    using short_table_skips_options [OF d1 l t1 d2 t2, of allOptions]
    by (simp add: filterColumns_def)
qed

section \<open>C8: projecting twice\<close>

lemma commonHeaders_idem: "commonHeaders th (commonHeaders th dh) = commonHeaders th dh"
  unfolding commonHeaders_def by (rule filter_cong) auto

lemma projectRow_twice:
  "projectRow (map (indexOf kept) kept) (projectRow (map (indexOf dh) kept) row)
     = projectRow (map (indexOf dh) kept) row"
proof -
  have "projectRow (map (indexOf dh) kept) row = map (\<lambda>h. orEmpty (cellAt row (indexOf dh h))) kept"
    by (simp add: projectRow_def o_def)
  moreover have "projectRow (map (indexOf kept) kept) (map (\<lambda>h. orEmpty (cellAt row (indexOf dh h))) kept)
      = map (\<lambda>h. orEmpty (cellAt row (indexOf dh h))) kept"
    by (simp add: projectRow_def o_def cellAt_indexOf cong: map_cong)
  ultimately show ?thesis by simp
qed

lemma filterColumns_twice:
  "filterColumns (fst (findColumns (snd (findColumns dh th)) th))
       (filterColumns (fst (findColumns dh th)) rows)
     = filterColumns (fst (findColumns dh th)) rows"
  by (simp add: findColumns_eq commonHeaders_idem filterColumns_def projectRow_twice)

text \<open>
  Claim C8. Aligning the kept headers against the same template keeps all of them, and
  projecting the projected table again leaves it unchanged; so cleaning with every option
  off, and then cleaning the resulting table (its header list being the kept headers)
  against the same template, returns the same table as cleaning once.
\<close>

theorem projection_idempotent:
  "snd (findColumns (snd (findColumns dh th)) th) = snd (findColumns dh th)
   \<and> filterColumns (fst (findColumns (snd (findColumns dh th)) th))
        (filterColumns (fst (findColumns dh th)) rows)
      = filterColumns (fst (findColumns dh th)) rows
   \<and> cleanData \<lparr>name = n, data = Some rows, headers = Some dh\<rparr>
        \<lparr>name = m, data = Some trows, headers = Some th\<rparr> noOptions
      = Inr \<lparr>totalRowsCleaned = int (length rows) - 1,
             columnsDeleted = int (length dh) - int (length (snd (findColumns dh th))),
             duplicateRowsRemoved = 0,
             cleanedData = filterColumns (fst (findColumns dh th)) rows\<rparr>
   \<and> cleanData \<lparr>name = n, data = Some (filterColumns (fst (findColumns dh th)) rows),
                   headers = Some (snd (findColumns dh th))\<rparr>
        \<lparr>name = m, data = Some trows, headers = Some th\<rparr> noOptions
      = Inr \<lparr>totalRowsCleaned = int (length rows) - 1,
             columnsDeleted = 0,
             duplicateRowsRemoved = 0,
             cleanedData = filterColumns (fst (findColumns dh th)) rows\<rparr>"
  using filterColumns_twice [of dh th rows]
  by (simp add: cleanData_present applyOptions_noOptions findColumns_eq commonHeaders_idem
      filterColumns_def)

text \<open>
  Claim C8 at a concrete pair of tables: the second cleaning returns the table of the first.
\<close>

theorem projection_idempotent_witness:
  "cleanData \<lparr>name = ''data.csv'',
        data = Some [[JStr ''Name'', JStr ''Age'', JStr ''Extra''], [JStr ''Alice'', JNum 30]],
        headers = Some [''Name'', ''Age'', ''Extra'']\<rparr>
      \<lparr>name = ''template.csv'', data = Some [], headers = Some [''Age'', ''Phone'', ''Name'']\<rparr> noOptions
    = Inr \<lparr>totalRowsCleaned = 1, columnsDeleted = 1, duplicateRowsRemoved = 0,
           cleanedData = [[JStr ''Age'', JStr ''Name''], [JNum 30, JStr ''Alice'']]\<rparr>
   \<and> cleanData \<lparr>name = ''data.csv'',
        data = Some [[JStr ''Age'', JStr ''Name''], [JNum 30, JStr ''Alice'']],
        headers = Some [''Age'', ''Name'']\<rparr>
      \<lparr>name = ''template.csv'', data = Some [], headers = Some [''Age'', ''Phone'', ''Name'']\<rparr> noOptions
    = Inr \<lparr>totalRowsCleaned = 1, columnsDeleted = 0, duplicateRowsRemoved = 0,
           cleanedData = [[JStr ''Age'', JStr ''Name''], [JNum 30, JStr ''Alice'']]\<rparr>"
proof -
  have c: "findColumns [''Name'', ''Age'', ''Extra''] [''Age'', ''Phone'', ''Name'']
      = ([1, 0], [''Age'', ''Name''])"
    by code_simp
  have f: "filterColumns [1, 0] [[JStr ''Name'', JStr ''Age'', JStr ''Extra''], [JStr ''Alice'', JNum 30]]
      = [[JStr ''Age'', JStr ''Name''], [JNum 30, JStr ''Alice'']]"
    by code_simp
  show ?thesis
    using projection_idempotent [of "[''Name'', ''Age'', ''Extra'']" "[''Age'', ''Phone'', ''Name'']"
        "[[JStr ''Name'', JStr ''Age'', JStr ''Extra''], [JStr ''Alice'', JNum 30]]"
        "''data.csv''" "''template.csv''" "[]"]
    by (simp add: c f)
qed

section \<open>C5: the only error, and the counts\<close>

lemma cleanData_error_iff:
  "cleanData d t opts = Inl (Error ''File data is not available'')
   \<longleftrightarrow> data d = None \<or> data t = None \<or> headers d = None \<or> headers t = None"
  by (auto simp: cleanData_def split: option.splits prod.splits)

lemma cleanData_result_iff:
  "(\<exists>r. cleanData d t opts = Inr r)
   \<longleftrightarrow> data d \<noteq> None \<and> data t \<noteq> None \<and> headers d \<noteq> None \<and> headers t \<noteq> None"
  by (auto simp: cleanData_def split: option.splits prod.splits)

lemma header_only_counts:
  assumes "data d = Some [hrow]" and "cleanData d t opts = Inr r"
  shows "totalRowsCleaned r = 0 \<and> duplicateRowsRemoved r = 0"
proof -
  from assms(2) obtain trows dh th where p: "data t = Some trows" "headers d = Some dh"
    "headers t = Some th"
    by (auto simp: cleanData_def split: option.splits)
  have "applyOptions opts (filterColumns (map (indexOf dh) (commonHeaders th dh)) [hrow])
      = (filterColumns (map (indexOf dh) (commonHeaders th dh)) [hrow], 0)"
    by (rule applyOptions_short) (simp add: filterColumns_def)
  with cleanData_present [OF assms(1) p, of opts] assms(2) show ?thesis
    by (auto simp: filterColumns_def)
qed

text \<open>
  The call raises its error exactly when one of the two files lacks its data list or
  its header list. For every other input, whatever the rows hold, it returns a result,
  and every cell of the cleaned table is a truthy value or the empty string: a cell
  missing from its row has been replaced by the empty string. For a data table that
  holds its header row only, the row count and the duplicate count are zero.
\<close>

lemma error_iff_missing:
  "(cleanData d t opts = Inl (Error ''File data is not available''))
     = (data d = None \<or> data t = None \<or> headers d = None \<or> headers t = None)
   \<and> (\<exists>r. cleanData d t opts = Inr r
          \<and> (\<forall>row \<in> set (cleanedData r). \<forall>c \<in> set row. plainCell c))
     = (data d \<noteq> None \<and> data t \<noteq> None \<and> headers d \<noteq> None \<and> headers t \<noteq> None)
   \<and> (data d = Some [hrow] \<and> cleanData d t opts = Inr r
        \<longrightarrow> totalRowsCleaned r = 0 \<and> duplicateRowsRemoved r = 0)"
proof -
  have "(\<exists>r. cleanData d t opts = Inr r \<and> (\<forall>row \<in> set (cleanedData r). \<forall>c \<in> set row. plainCell c))
      = (\<exists>r. cleanData d t opts = Inr r)"
    using cleanData_plain by blast
  then have a: "(\<exists>r. cleanData d t opts = Inr r
          \<and> (\<forall>row \<in> set (cleanedData r). \<forall>c \<in> set row. plainCell c))
     = (data d \<noteq> None \<and> data t \<noteq> None \<and> headers d \<noteq> None \<and> headers t \<noteq> None)"
    by (simp only: cleanData_result_iff)
  have b: "data d = Some [hrow] \<and> cleanData d t opts = Inr r
        \<longrightarrow> totalRowsCleaned r = 0 \<and> duplicateRowsRemoved r = 0"
    using header_only_counts [of d hrow t opts r] by blast
  from cleanData_error_iff [of d t opts] a b show ?thesis by (intro conjI)
qed

text \<open>
  The same at a file without data list, at a pair of tables with a missing cell and a
  template column the data does not have, and at a header-only table with no matching
  column.
\<close>

lemma error_iff_missing_example:
  "cleanData \<lparr>name = ''data.csv'', data = None, headers = Some [''Name'']\<rparr>
       (parsedFile [''Name''] []) noOptions
     = Inl (Error ''File data is not available'')
   \<and> cleanData (parsedFile [''Name'', ''Age''] [[JStr ''Al'']]) (parsedFile [''Age'', ''Phone''] []) noOptions
     = Inr \<lparr>totalRowsCleaned = 1, columnsDeleted = 1, duplicateRowsRemoved = 0,
            cleanedData = [[JStr ''Age''], [JStr '''']]\<rparr>
   \<and> cleanData (parsedFile [''Name'', ''Age''] []) (parsedFile [''Phone''] []) allOptions
     = Inr \<lparr>totalRowsCleaned = 0, columnsDeleted = 2, duplicateRowsRemoved = 0,
            cleanedData = [[]]\<rparr>"
proof -
  have a: "cleanData \<lparr>name = ''data.csv'', data = None, headers = Some [''Name'']\<rparr>
       (parsedFile [''Name''] []) noOptions = Inl (Error ''File data is not available'')"
    using error_iff_missing [of "\<lparr>name = ''data.csv'', data = None, headers = Some [''Name'']\<rparr>"
        "parsedFile [''Name''] []" noOptions]
    by simp
  have b: "cleanData (parsedFile [''Name'', ''Age''] [[JStr ''Al'']]) (parsedFile [''Age'', ''Phone''] []) noOptions
     = Inr \<lparr>totalRowsCleaned = 1, columnsDeleted = 1, duplicateRowsRemoved = 0,
            cleanedData = [[JStr ''Age''], [JStr '''']]\<rparr>"
    by code_simp
  have c: "cleanData (parsedFile [''Name'', ''Age''] []) (parsedFile [''Phone''] []) allOptions
     = Inr \<lparr>totalRowsCleaned = 0, columnsDeleted = 2, duplicateRowsRemoved = 0,
            cleanedData = [[]]\<rparr>"
    by code_simp
  from a b c show ?thesis by (intro conjI)
qed

text \<open>
  Claim C5. The claim has every input other than a missing list produce a result with
  empty-string substitution and zero counts, empty tables included. The error part holds,
  as shown above. At a data table without any row, the parse of an empty file, no error
  is raised, but \<open>totalRowsCleaned\<close> is \<open>-1\<close>, not zero: \<^verbatim>\<open>cleanedData.length - 1\<close>
  excludes a header row that is not there, and is not clamped at zero as the same
  subtraction is in \<^verbatim>\<open>parseFile\<close> (\<^verbatim>\<open>Math.max(0, data.length - 1)\<close>).
\<close>

theorem empty_table_row_count:
  "cleanData emptyFile (parsedFile [''Name''] []) noOptions
     = Inr \<lparr>totalRowsCleaned = - 1, columnsDeleted = 0, duplicateRowsRemoved = 0,
            cleanedData = []\<rparr>
   \<and> totalRowsCleaned \<lparr>totalRowsCleaned = - 1, columnsDeleted = 0, duplicateRowsRemoved = 0,
            cleanedData = []\<rparr> \<noteq> 0"
proof -
  have a: "cleanData emptyFile (parsedFile [''Name''] []) noOptions
     = Inr \<lparr>totalRowsCleaned = - 1, columnsDeleted = 0, duplicateRowsRemoved = 0,
            cleanedData = []\<rparr>"
    by code_simp
  then show ?thesis by simp
qed

section \<open>C3: leading zeros\<close>

lemma isDigit_zero [simp]: "isDigit (CHR ''0'')"
  by (simp add: isDigit_def)

lemma digitAfterZeros_iff: "digitAfterZeros s \<longleftrightarrow> (\<exists>d rest. s = d # rest \<and> isDigit d)"
  by (cases s) auto

lemma testLeadingZeros_iff:
  "testLeadingZeros s \<longleftrightarrow> (\<exists>d rest. s = CHR ''0'' # d # rest \<and> isDigit d)"
  by (cases s) (auto simp: digitAfterZeros_iff)

lemma testLeadingZeros_regex:
  "testLeadingZeros s \<longleftrightarrow>
     (\<exists>k d rest. 0 < k \<and> isDigit d \<and> s = replicate k (CHR ''0'') @ d # rest)"
proof
  assume "testLeadingZeros s"
  then obtain d rest where "s = CHR ''0'' # d # rest" "isDigit d"
    by (auto simp: testLeadingZeros_iff)
  then have "0 < (1::nat) \<and> isDigit d \<and> s = replicate 1 (CHR ''0'') @ d # rest" by simp
  then show "\<exists>k d rest. 0 < k \<and> isDigit d \<and> s = replicate k (CHR ''0'') @ d # rest" by blast
next
  assume "\<exists>k d rest. 0 < k \<and> isDigit d \<and> s = replicate k (CHR ''0'') @ d # rest"
  then obtain k d rest where k: "0 < k" and d: "isDigit d"
    and s: "s = replicate k (CHR ''0'') @ d # rest" by blast
  from k obtain j where j: "k = Suc j" by (cases k) auto
  show "testLeadingZeros s"
  proof (cases j)
    case 0
    with j s d show ?thesis by (simp add: testLeadingZeros_iff)
  next
    case (Suc i)
    with j s show ?thesis by (simp add: testLeadingZeros_iff)
  qed
qed

lemma stripLeadingZeros_run:
  "d \<noteq> CHR ''0'' \<Longrightarrow> stripLeadingZeros (replicate k (CHR ''0'') @ d # rest) = d # rest"
  by (induction k) (simp_all add: stripLeadingZeros_def)

text \<open>
  With only remove-leading-zeros on, a string cell that fails the test is unchanged, and
  a cell whose zeros are followed by a digit other than zero loses exactly those zeros:
  \<open>007\<close> becomes \<open>7\<close>, \<open>0\<close> stays \<open>0\<close>, \<open>0a1\<close> stays \<open>0a1\<close>.
\<close>

lemma leading_zeros_digit_survives:
  "(\<not> testLeadingZeros s \<longrightarrow>
      transformCell (noOptions\<lparr>removeLeadingZeros := True\<rparr>) (JStr s) = JStr s)
   \<and> (isDigit d \<and> d \<noteq> CHR ''0'' \<longrightarrow>
      transformCell (noOptions\<lparr>removeLeadingZeros := True\<rparr>)
        (JStr (replicate (Suc k) (CHR ''0'') @ d # rest)) = JStr (d # rest))
   \<and> transformCell (noOptions\<lparr>removeLeadingZeros := True\<rparr>) (JStr ''007'') = JStr ''7''
   \<and> transformCell (noOptions\<lparr>removeLeadingZeros := True\<rparr>) (JStr ''0'') = JStr ''0''
   \<and> transformCell (noOptions\<lparr>removeLeadingZeros := True\<rparr>) (JStr ''0a1'') = JStr ''0a1''"
proof -
  have only: "transformCell (noOptions\<lparr>removeLeadingZeros := True\<rparr>) (JStr v) =
      JStr (if testLeadingZeros v then stripLeadingZeros v else v)" for v
    by (simp add: transformCell_def noOptions_def)
  have a: "\<not> testLeadingZeros s \<longrightarrow>
      transformCell (noOptions\<lparr>removeLeadingZeros := True\<rparr>) (JStr s) = JStr s"
    by (simp add: only)
  have b: "isDigit d \<and> d \<noteq> CHR ''0'' \<longrightarrow>
      transformCell (noOptions\<lparr>removeLeadingZeros := True\<rparr>)
        (JStr (replicate (Suc k) (CHR ''0'') @ d # rest)) = JStr (d # rest)"
  proof
    assume h: "isDigit d \<and> d \<noteq> CHR ''0''"
    then have "testLeadingZeros (replicate (Suc k) (CHR ''0'') @ d # rest)"
      unfolding testLeadingZeros_regex by blast
    moreover have "stripLeadingZeros (replicate (Suc k) (CHR ''0'') @ d # rest) = d # rest"
      using h stripLeadingZeros_run [of d "Suc k" rest] by blast
    ultimately show "transformCell (noOptions\<lparr>removeLeadingZeros := True\<rparr>)
        (JStr (replicate (Suc k) (CHR ''0'') @ d # rest)) = JStr (d # rest)"
      by (simp only: only if_True)
  qed
  have ex: "transformCell (noOptions\<lparr>removeLeadingZeros := True\<rparr>) (JStr ''007'') = JStr ''7''"
    "transformCell (noOptions\<lparr>removeLeadingZeros := True\<rparr>) (JStr ''0'') = JStr ''0''"
    "transformCell (noOptions\<lparr>removeLeadingZeros := True\<rparr>) (JStr ''0a1'') = JStr ''0a1''"
    by (simp_all add: transformCell_def noOptions_def stripLeadingZeros_def isDigit_def)
  from a b ex show ?thesis by (intro conjI)
qed

text \<open>
  Claim C3. The claim has the cell \<open>00\<close> stay \<open>00\<close> when remove-leading-zeros is on:
  the test for a digit after the zeros is there so that a digit survives the strip, as
  it does for the cell \<open>0\<close>. In the code the cell \<open>00\<close> passes the test, a zero followed
  by the digit zero, and the strip then deletes both zeros: the cleaned table holds the
  empty string.
\<close>

theorem double_zero_is_emptied:
  "cleanData (parsedFile [''Code''] [[JStr ''00'']]) (parsedFile [''Code''] [])
       (noOptions\<lparr>removeLeadingZeros := True\<rparr>)
     = Inr \<lparr>totalRowsCleaned = 1, columnsDeleted = 0, duplicateRowsRemoved = 0,
            cleanedData = [[JStr ''Code''], [JStr '''']]\<rparr>
   \<and> transformCell (noOptions\<lparr>removeLeadingZeros := True\<rparr>) (JStr ''00'') \<noteq> JStr ''00''"
proof -
  have a: "cleanData (parsedFile [''Code''] [[JStr ''00'']]) (parsedFile [''Code''] [])
       (noOptions\<lparr>removeLeadingZeros := True\<rparr>)
     = Inr \<lparr>totalRowsCleaned = 1, columnsDeleted = 0, duplicateRowsRemoved = 0,
            cleanedData = [[JStr ''Code''], [JStr '''']]\<rparr>"
    by code_simp
  have b: "transformCell (noOptions\<lparr>removeLeadingZeros := True\<rparr>) (JStr ''00'') \<noteq> JStr ''00''"
    by (simp add: transformCell_def noOptions_def stripLeadingZeros_def isDigit_def)
  show ?thesis using a b by simp
qed

section \<open>C6: case conversion and the order of the transforms\<close>

lemma transformCell_both_cases:
  "transformCell (opts\<lparr>convertToUppercase := True, convertToLowercase := True\<rparr>)
     = transformCell (opts\<lparr>convertToUppercase := True, convertToLowercase := False\<rparr>)"
  by (rule ext) (simp add: transformCell_def)

lemma applyOptions_both_cases:
  "applyOptions (opts\<lparr>convertToUppercase := True, convertToLowercase := True\<rparr>) tb
     = applyOptions (opts\<lparr>convertToUppercase := True, convertToLowercase := False\<rparr>) tb"
  by (cases tb)
    (simp_all add: applyOptions_def dedupStage_def emptyRowStage_def textStage_def
      anyTextOption_def transformCell_both_cases)

lemma cleanData_both_cases:
  "cleanData d t (opts\<lparr>convertToUppercase := True, convertToLowercase := True\<rparr>)
     = cleanData d t (opts\<lparr>convertToUppercase := True, convertToLowercase := False\<rparr>)"
  unfolding cleanData_def applyOptions_both_cases by (rule refl)

text \<open>
  Claim C6. With both case options on, the result is the result with only
  convert-to-uppercase on. The transforms of a cell apply in the order trim, case
  conversion, remove-special-characters, remove-leading-zeros; with trim and uppercase on,
  the cell \<open>"  bob "\<close> becomes \<open>BOB\<close>.
\<close>

theorem uppercase_wins_and_order:
  "cleanData d t (opts\<lparr>convertToUppercase := True, convertToLowercase := True\<rparr>)
     = cleanData d t (opts\<lparr>convertToUppercase := True, convertToLowercase := False\<rparr>)
   \<and> transformCell (opts\<lparr>trimWhitespace := True, convertToUppercase := True,
         removeSpecialCharacters := True, removeLeadingZeros := True\<rparr>) c
     = JStr (let v = removeSpecial (toUpperCase (trim (coerceString c)))
             in if testLeadingZeros v then stripLeadingZeros v else v)
   \<and> transformCell (opts\<lparr>trimWhitespace := True, convertToUppercase := False,
         convertToLowercase := True, removeSpecialCharacters := True, removeLeadingZeros := True\<rparr>) c
     = JStr (let v = removeSpecial (toLowerCase (trim (coerceString c)))
             in if testLeadingZeros v then stripLeadingZeros v else v)
   \<and> transformCell (noOptions\<lparr>trimWhitespace := True, convertToUppercase := True\<rparr>) (JStr ''  bob '')
     = JStr ''BOB''
   \<and> transformCell (noOptions\<lparr>trimWhitespace := True, removeSpecialCharacters := True\<rparr>) (JStr ''! a'')
     = JStr '' a''
   \<and> transformCell (noOptions\<lparr>removeSpecialCharacters := True, removeLeadingZeros := True\<rparr>) (JStr ''-007'')
     = JStr ''7''"
proof -
  have a: "transformCell (noOptions\<lparr>trimWhitespace := True, convertToUppercase := True\<rparr>) (JStr ''  bob '')
     = JStr ''BOB''" by code_simp
  have b: "transformCell (noOptions\<lparr>trimWhitespace := True, removeSpecialCharacters := True\<rparr>) (JStr ''! a'')
     = JStr '' a''" by code_simp
  have c: "transformCell (noOptions\<lparr>removeSpecialCharacters := True, removeLeadingZeros := True\<rparr>) (JStr ''-007'')
     = JStr ''7''" by code_simp
  show ?thesis
    using cleanData_both_cases [of d t opts] a b c
    by (simp add: transformCell_def Let_def)
qed

text \<open>Claim C6 at a table with the cell \<open>"  bob "\<close>, trim and both case options on.\<close>

theorem uppercase_wins_and_order_witness:
  "cleanData (parsedFile [''Name''] [[JStr ''  bob '']]) (parsedFile [''Name''] [])
      (noOptions\<lparr>trimWhitespace := True, convertToUppercase := True, convertToLowercase := True\<rparr>)
    = Inr \<lparr>totalRowsCleaned = 1, columnsDeleted = 0, duplicateRowsRemoved = 0,
           cleanedData = [[JStr ''Name''], [JStr ''BOB'']]\<rparr>"
proof -
  have "cleanData (parsedFile [''Name''] [[JStr ''  bob '']]) (parsedFile [''Name''] [])
      (noOptions\<lparr>trimWhitespace := True, convertToUppercase := True, convertToLowercase := False\<rparr>)
    = Inr \<lparr>totalRowsCleaned = 1, columnsDeleted = 0, duplicateRowsRemoved = 0,
           cleanedData = [[JStr ''Name''], [JStr ''BOB'']]\<rparr>"
    by code_simp
  then show ?thesis
    using uppercase_wins_and_order [of "parsedFile [''Name''] [[JStr ''  bob '']]"
        "parsedFile [''Name''] []" "noOptions\<lparr>trimWhitespace := True\<rparr>"]
    by simp
qed

section \<open>C9: falsy cells\<close>

lemma orEmpty_falsy: "\<not> truthy c \<Longrightarrow> orEmpty c = JStr []"
  by (simp add: orEmpty_def)

lemma cellAt_append_last:
  "\<not> truthy c \<Longrightarrow> orEmpty (cellAt (xs @ [c]) i) = orEmpty (cellAt xs i)"
  by (auto simp: cellAt_def orEmpty_def nth_append)

lemma cellAt_swap:
  "\<not> truthy c \<Longrightarrow> \<not> truthy c' \<Longrightarrow>
   orEmpty (cellAt (xs @ c # ys) i) = orEmpty (cellAt (xs @ c' # ys) i)"
  by (auto simp: cellAt_def orEmpty_def nth_append nth_Cons split: nat.splits)

lemma projectRow_append_last:
  "\<not> truthy c \<Longrightarrow> projectRow cols (xs @ [c]) = projectRow cols xs"
  by (simp add: projectRow_def cellAt_append_last)

lemma projectRow_swap:
  "\<not> truthy c \<Longrightarrow> \<not> truthy c' \<Longrightarrow>
   projectRow cols (xs @ c # ys) = projectRow cols (xs @ c' # ys)"
  using cellAt_swap [of c c' xs ys] by (simp add: projectRow_def)

lemma plainCell_not_falsy:
  "plainCell c \<Longrightarrow> c \<noteq> JNum 0 \<and> c \<noteq> JBool False \<and> c \<noteq> JNull \<and> c \<noteq> JUndefined"
  by (auto simp: plainCell_def)

lemma projectRow_present:
  "0 \<le> i \<Longrightarrow> nat i < length row \<Longrightarrow> \<not> truthy (row ! nat i) \<Longrightarrow> projectRow [i] row = [JStr []]"
  by (simp add: projectRow_def cellAt_def orEmpty_def)

text \<open>
  Claim C9. Projection replaces every present cell that is falsy (the number 0, false,
  null, the empty string) by the empty string, as it does a missing cell: every projected
  cell is truthy or the empty string; no cell of a cleaned table is the number 0, false,
  null or undefined, whatever the options; and two rows that differ only in that one holds
  0 where the other has no cell project to the same row, hence to the same key.
\<close>

theorem falsy_cells_become_empty:
  "(0 \<le> i \<and> nat i < length row \<and> row ! nat i \<in> {JNum 0, JBool False, JNull, JStr []}
      \<longrightarrow> projectRow [i] row = [JStr []])
   \<and> (\<forall>c \<in> set (projectRow cols row). plainCell c)
   \<and> (cleanData d t opts = Inr r \<longrightarrow>
        (\<forall>line \<in> set (cleanedData r).
           JNum 0 \<notin> set line \<and> JBool False \<notin> set line \<and> JNull \<notin> set line
           \<and> JUndefined \<notin> set line))
   \<and> projectRow cols (xs @ [JNum 0]) = projectRow cols xs
   \<and> projectRow cols (xs @ JNum 0 # ys) = projectRow cols (xs @ JUndefined # ys)
   \<and> JSON_stringify (projectRow cols (xs @ [JNum 0])) = JSON_stringify (projectRow cols xs)
   \<and> JSON_stringify (projectRow cols (xs @ JNum 0 # ys))
       = JSON_stringify (projectRow cols (xs @ JUndefined # ys))"
proof -
  have a: "0 \<le> i \<and> nat i < length row \<and> row ! nat i \<in> {JNum 0, JBool False, JNull, JStr []}
      \<longrightarrow> projectRow [i] row = [JStr []]"
    by (auto simp: projectRow_present)
  have b: "\<forall>c \<in> set (projectRow cols row). plainCell c"
    by (simp add: projectRow_plain)
  have c: "cleanData d t opts = Inr r \<longrightarrow>
        (\<forall>line \<in> set (cleanedData r).
           JNum 0 \<notin> set line \<and> JBool False \<notin> set line \<and> JNull \<notin> set line
           \<and> JUndefined \<notin> set line)"
    using cleanData_plain [of d t opts r] plainCell_not_falsy by blast
  have e: "projectRow cols (xs @ [JNum 0]) = projectRow cols xs"
    by (simp add: projectRow_append_last)
  have f: "projectRow cols (xs @ JNum 0 # ys) = projectRow cols (xs @ JUndefined # ys)"
    by (simp add: projectRow_swap)
  show ?thesis using a b c e f by (simp only: simp_thms)
qed

text \<open>Claim C9 at a table with a numeric 0, a missing cell and a false, every option off.\<close>

theorem falsy_cells_become_empty_witness:
  "cleanData (parsedFile [''Id'', ''Qty''] [[JStr ''a'', JNum 0], [JStr ''a''], [JStr ''b'', JBool False]])
       (parsedFile [''Id'', ''Qty''] []) noOptions
     = Inr \<lparr>totalRowsCleaned = 3, columnsDeleted = 0, duplicateRowsRemoved = 0,
            cleanedData = [[JStr ''Id'', JStr ''Qty''], [JStr ''a'', JStr ''''],
                           [JStr ''a'', JStr ''''], [JStr ''b'', JStr '''']]\<rparr>
   \<and> JNum 0 \<notin> set [JStr ''a'', JStr '''']
   \<and> projectRow [0, 1] [JStr ''a'', JNum 0] = projectRow [0, 1] [JStr ''a'']
   \<and> JSON_stringify (projectRow [0, 1] [JStr ''a'', JNum 0]) = JSON_stringify (projectRow [0, 1] [JStr ''a''])"
proof -
  have e: "cleanData (parsedFile [''Id'', ''Qty''] [[JStr ''a'', JNum 0], [JStr ''a''], [JStr ''b'', JBool False]])
       (parsedFile [''Id'', ''Qty''] []) noOptions
     = Inr \<lparr>totalRowsCleaned = 3, columnsDeleted = 0, duplicateRowsRemoved = 0,
            cleanedData = [[JStr ''Id'', JStr ''Qty''], [JStr ''a'', JStr ''''],
                           [JStr ''a'', JStr ''''], [JStr ''b'', JStr '''']]\<rparr>"
    by code_simp
  show ?thesis
    using e falsy_cells_become_empty [of 1 "[JStr ''a'', JNum 0]" "[0, 1]"
        "parsedFile [''Id'', ''Qty''] [[JStr ''a'', JNum 0], [JStr ''a''], [JStr ''b'', JBool False]]"
        "parsedFile [''Id'', ''Qty''] []" noOptions
        "\<lparr>totalRowsCleaned = 3, columnsDeleted = 0, duplicateRowsRemoved = 0,
            cleanedData = [[JStr ''Id'', JStr ''Qty''], [JStr ''a'', JStr ''''],
                           [JStr ''a'', JStr ''''], [JStr ''b'', JStr '''']]\<rparr>" "[JStr ''a'']" "[]"]
    by simp
qed

section \<open>C7: empty rows\<close>

lemma trim_Nil [simp]: "trim [] = []"
  by (simp add: trim_def)

lemma in_dropWhile: "c \<in> set xs \<Longrightarrow> \<not> P c \<Longrightarrow> c \<in> set (dropWhile P xs)"
  by (induction xs) auto

lemma set_trim: "set (trim s) \<subseteq> set s"
proof
  fix c assume "c \<in> set (trim s)"
  then have "c \<in> set (dropWhile isWhitespace (rev (dropWhile isWhitespace s)))"
    by (simp add: trim_def)
  then have "c \<in> set (rev (dropWhile isWhitespace s))" by (rule set_dropWhileD)
  then have "c \<in> set (dropWhile isWhitespace s)" by simp
  then show "c \<in> set s" by (rule set_dropWhileD)
qed

lemma in_trim: "c \<in> set s \<Longrightarrow> \<not> isWhitespace c \<Longrightarrow> c \<in> set (trim s)"
  by (simp add: trim_def in_dropWhile)

lemma trim_nonempty: "trim s \<noteq> [] \<longleftrightarrow> (\<exists>c \<in> set s. \<not> isWhitespace c)"
proof
  assume "trim s \<noteq> []"
  then have ne: "dropWhile isWhitespace (rev (dropWhile isWhitespace s)) \<noteq> []"
    by (simp add: trim_def)
  then have "\<not> isWhitespace (hd (dropWhile isWhitespace (rev (dropWhile isWhitespace s))))"
    by (rule hd_dropWhile)
  moreover from ne have "hd (dropWhile isWhitespace (rev (dropWhile isWhitespace s))) \<in> set (trim s)"
    by (simp add: trim_def)
  ultimately show "\<exists>c \<in> set s. \<not> isWhitespace c" using set_trim by blast
next
  assume "\<exists>c \<in> set s. \<not> isWhitespace c"
  then obtain c where "c \<in> set s" "\<not> isWhitespace c" by blast
  then have "c \<in> set (trim s)" by (rule in_trim)
  then show "trim s \<noteq> []" by auto
qed

lemma letters_not_whitespace:
  "c \<in> set lowerLetters \<or> c \<in> set upperLetters \<Longrightarrow> \<not> isWhitespace c"
  by (auto simp: lowerLetters_def upperLetters_def isWhitespace_def)

lemma upperChar_whitespace [simp]: "isWhitespace (upperChar c) = isWhitespace c"
proof (cases "map_of (zip lowerLetters upperLetters) c")
  case None
  then show ?thesis by (simp add: upperChar_def)
next
  case (Some u)
  then have "(c, u) \<in> set (zip lowerLetters upperLetters)" by (rule map_of_SomeD)
  then have "c \<in> set lowerLetters" "u \<in> set upperLetters"
    by (auto dest: set_zip_leftD set_zip_rightD)
  then have "\<not> isWhitespace c" "\<not> isWhitespace u"
    by (simp_all add: letters_not_whitespace)
  with Some show ?thesis by (simp add: upperChar_def)
qed

lemma lowerChar_whitespace [simp]: "isWhitespace (lowerChar c) = isWhitespace c"
proof (cases "map_of (zip upperLetters lowerLetters) c")
  case None
  then show ?thesis by (simp add: lowerChar_def)
next
  case (Some l)
  then have "(c, l) \<in> set (zip upperLetters lowerLetters)" by (rule map_of_SomeD)
  then have "c \<in> set upperLetters" "l \<in> set lowerLetters"
    by (auto dest: set_zip_leftD set_zip_rightD)
  then have "\<not> isWhitespace c" "\<not> isWhitespace l"
    by (simp_all add: letters_not_whitespace)
  with Some show ?thesis by (simp add: lowerChar_def)
qed

lemma trim_trim_empty: "(trim (trim s) = []) = (trim s = [])"
proof -
  have "(\<exists>c \<in> set (trim s). \<not> isWhitespace c) \<longleftrightarrow> (\<exists>c \<in> set s. \<not> isWhitespace c)"
    using set_trim [of s] in_trim [of _ s] by blast
  then have "trim (trim s) \<noteq> [] \<longleftrightarrow> trim s \<noteq> []" by (simp add: trim_nonempty)
  then show ?thesis by simp
qed

lemma trim_upper_empty: "(trim (toUpperCase s) = []) = (trim s = [])"
proof -
  have "trim (toUpperCase s) \<noteq> [] \<longleftrightarrow> trim s \<noteq> []"
    by (simp add: trim_nonempty toUpperCase_def)
  then show ?thesis by simp
qed

lemma trim_lower_empty: "(trim (toLowerCase s) = []) = (trim s = [])"
proof -
  have "trim (toLowerCase s) \<noteq> [] \<longleftrightarrow> trim s \<noteq> []"
    by (simp add: trim_nonempty toLowerCase_def)
  then show ?thesis by simp
qed

lemma cellHasText_transform:
  assumes "\<not> removeSpecialCharacters opts" and "\<not> removeLeadingZeros opts"
  shows "cellHasText (transformCell opts c) = cellHasText c"
  using assms
  by (simp add: cellHasText_def transformCell_def Let_def trim_upper_empty trim_lower_empty
      trim_trim_empty)

lemma rowHasText_textStage:
  assumes "\<not> removeSpecialCharacters opts" and "\<not> removeLeadingZeros opts"
    and "\<forall>row \<in> set rows. rowHasText row"
  shows "\<forall>row \<in> set (textStage opts rows). rowHasText row"
  using assms
  by (auto simp: textStage_def rowHasText_def list_ex_iff cellHasText_transform)

lemma rowHasContent_plain:
  assumes "\<And>c. c \<in> set row \<Longrightarrow> plainCell c"
  shows "rowHasContent row = rowHasText row"
proof -
  have "(truthy c \<and> trim (toString c) \<noteq> []) = cellHasText c" if "plainCell c" for c
    using that by (cases c) (auto simp: plainCell_def cellHasText_def)
  with assms show ?thesis
    by (auto simp: rowHasContent_def rowHasText_def list_ex_iff)
qed

lemma emptyRowStage_plain:
  assumes "removeEmptyRows opts"
    and "\<And>row c. row \<in> set rows \<Longrightarrow> c \<in> set row \<Longrightarrow> plainCell c"
  shows "emptyRowStage opts rows = filter rowHasText rows"
proof -
  have "filter rowHasContent rows = filter rowHasText rows"
    by (rule filter_cong) (auto simp: rowHasContent_plain assms(2))
  with assms(1) show ?thesis by (simp add: emptyRowStage_def)
qed

lemma dataRowsOf_cleaned:
  "dataRowsOf (fst (applyOptions opts tb))
     = textStage opts (emptyRowStage opts (fst (dedupStage opts (dataRowsOf tb))))"
proof (cases tb)
  case Nil
  then show ?thesis
    by (simp add: dataRowsOf_def applyOptions_def textStage_def emptyRowStage_def dedupStage_def)
next
  case (Cons h rs)
  then show ?thesis by (simp add: dataRowsOf_def applyOptions_header)
qed

lemma dataRowsOf_subset: "set (dataRowsOf tb) \<subseteq> set tb"
  by (auto simp: dataRowsOf_def dest: in_set_dropD)

text \<open>
  Claim C7, as amended. With remove-empty-rows enabled, the data rows of the cleaned table
  are the text transforms of exactly those (projected, deduplicated) rows that have a cell
  whose string coercion is non-empty after the whitespace trim: a row is dropped exactly
  when every cell, after coercion and trim, is empty. When neither
  remove-special-characters nor remove-leading-zeros is enabled, every data row of the
  output has such a cell.
\<close>

theorem empty_rows_removed:
  assumes "removeEmptyRows opts" and "cleanData d t opts = Inr r"
    and "data d = Some rows" and "headers d = Some dh" and "headers t = Some th"
  shows "dataRowsOf (cleanedData r) =
           textStage opts (filter rowHasText
             (fst (dedupStage opts (dataRowsOf (filterColumns (fst (findColumns dh th)) rows)))))
    \<and> (\<not> removeSpecialCharacters opts \<and> \<not> removeLeadingZeros opts
         \<longrightarrow> (\<forall>row \<in> set (dataRowsOf (cleanedData r)). rowHasText row))"
proof -
  let ?F = "filterColumns (fst (findColumns dh th)) rows"
  let ?U = "fst (dedupStage opts (dataRowsOf ?F))"
  from assms(2) obtain trows where tr: "data t = Some trows"
    by (auto simp: cleanData_def split: option.splits)
  from cleanData_present [OF assms(3) tr assms(4,5), of opts] assms(2)
  have cd: "cleanedData r = fst (applyOptions opts ?F)" by (auto simp: findColumns_eq)
  have plain: "plainCell c" if "row \<in> set ?U" "c \<in> set row" for row c
  proof -
    from that(1) dedupStage_subset [of opts "dataRowsOf ?F"] dataRowsOf_subset [of ?F]
    have "row \<in> set ?F" by blast
    from filterColumns_plain [OF this that(2)] show ?thesis .
  qed
  have eq: "dataRowsOf (cleanedData r) = textStage opts (filter rowHasText ?U)"
    using cd dataRowsOf_cleaned [of opts ?F] emptyRowStage_plain [OF assms(1), of ?U] plain
    by simp
  have "\<forall>row \<in> set (filter rowHasText ?U). rowHasText row" by simp
  then have "\<not> removeSpecialCharacters opts \<and> \<not> removeLeadingZeros opts
      \<longrightarrow> (\<forall>row \<in> set (textStage opts (filter rowHasText ?U)). rowHasText row)"
    using rowHasText_textStage [of opts "filter rowHasText ?U"] by blast
  with eq show ?thesis by simp
qed

text \<open>
  Claim C7, the amended statement at a table with a blank row, a row without cells and a
  row holding the number 0, trimming on.
\<close>

theorem empty_rows_removed_witness:
  "removeEmptyRows (noOptions\<lparr>removeEmptyRows := True, trimWhitespace := True\<rparr>)
   \<and> cleanData (parsedFile [''Note''] [[JStr ''  ''], [JStr '' x ''], [], [JNum 0], [JNum 7]])
        (parsedFile [''Note''] []) (noOptions\<lparr>removeEmptyRows := True, trimWhitespace := True\<rparr>)
     = Inr \<lparr>totalRowsCleaned = 2, columnsDeleted = 0, duplicateRowsRemoved = 0,
            cleanedData = [[JStr ''Note''], [JStr ''x''], [JStr ''7'']]\<rparr>
   \<and> dataRowsOf [[JStr ''Note''], [JStr ''x''], [JStr ''7'']] = [[JStr ''x''], [JStr ''7'']]
   \<and> rowHasText [JStr ''x''] \<and> rowHasText [JStr ''7'']"
proof -
  let ?o = "noOptions\<lparr>removeEmptyRows := True, trimWhitespace := True\<rparr>"
  have h: "removeEmptyRows ?o" by simp
  have e: "cleanData (parsedFile [''Note''] [[JStr ''  ''], [JStr '' x ''], [], [JNum 0], [JNum 7]])
        (parsedFile [''Note''] []) ?o
     = Inr \<lparr>totalRowsCleaned = 2, columnsDeleted = 0, duplicateRowsRemoved = 0,
            cleanedData = [[JStr ''Note''], [JStr ''x''], [JStr ''7'']]\<rparr>"
    by code_simp
  have d1: "data (parsedFile [''Note''] [[JStr ''  ''], [JStr '' x ''], [], [JNum 0], [JNum 7]])
      = Some ([JStr ''Note''] # [[JStr ''  ''], [JStr '' x ''], [], [JNum 0], [JNum 7]])"
    and d2: "headers (parsedFile [''Note''] [[JStr ''  ''], [JStr '' x ''], [], [JNum 0], [JNum 7]])
      = Some [''Note'']"
    and t2: "headers (parsedFile [''Note''] []) = Some [''Note'']"
    by (simp_all add: parsedFile_def)
  have s: "\<not> removeSpecialCharacters ?o \<and> \<not> removeLeadingZeros ?o" by (simp add: noOptions_def)
  have dr: "dataRowsOf [[JStr ''Note''], [JStr ''x''], [JStr ''7'']] = [[JStr ''x''], [JStr ''7'']]"
    by (simp add: dataRowsOf_def)
  show ?thesis
    using empty_rows_removed [OF h e d1 d2 t2] h e s dr by simp
qed

text \<open>
  Claim C7 as stated fails when a later transform empties a retained row: the row
  \<open>!!!\<close> passes the empty-row stage, and remove-special-characters then leaves it with
  an empty cell only.
\<close>

theorem retained_row_emptied_counterexample:
  "cleanData (parsedFile [''Note''] [[JStr ''!!!'']]) (parsedFile [''Note''] [])
       (noOptions\<lparr>removeEmptyRows := True, removeSpecialCharacters := True\<rparr>)
     = Inr \<lparr>totalRowsCleaned = 1, columnsDeleted = 0, duplicateRowsRemoved = 0,
            cleanedData = [[JStr ''Note''], [JStr '''']]\<rparr>
   \<and> \<not> rowHasText [JStr '''']"
proof -
  have a: "cleanData (parsedFile [''Note''] [[JStr ''!!!'']]) (parsedFile [''Note''] [])
       (noOptions\<lparr>removeEmptyRows := True, removeSpecialCharacters := True\<rparr>)
     = Inr \<lparr>totalRowsCleaned = 1, columnsDeleted = 0, duplicateRowsRemoved = 0,
            cleanedData = [[JStr ''Note''], [JStr '''']]\<rparr>"
    by code_simp
  have b: "\<not> rowHasText [JStr '''']"
    by (simp add: rowHasText_def cellHasText_def)
  show ?thesis using a b by simp
qed

section \<open>The row key is injective on projected rows\<close>

lemma digitChar_inj: "a < 16 \<Longrightarrow> b < 16 \<Longrightarrow> digitChar a = digitChar b \<Longrightarrow> a = b"
proof -
  assume a: "a < 16" and b: "b < 16" and e: "digitChar a = digitChar b"
  have d: "distinct ''0123456789abcdef''" by simp
  have l: "length ''0123456789abcdef'' = 16" by simp
  from e a b have "''0123456789abcdef'' ! a = ''0123456789abcdef'' ! b"
    by (simp add: digitChar_def)
  with d a b l show "a = b" by (simp only: nth_eq_iff_index_eq)
qed

lemma digitChar_isDigit: "k < 10 \<Longrightarrow> isDigit (digitChar k)"
proof -
  assume k: "k < 10"
  have "''0123456789abcdef'' ! k = (''0123456789'' @ ''abcdef'') ! k" by simp
  also have "\<dots> = ''0123456789'' ! k" using k by (simp only: nth_append) simp
  finally have "digitChar k = ''0123456789'' ! k" using k by (simp add: digitChar_def)
  moreover have "''0123456789'' ! k \<in> set ''0123456789''" using k by (intro nth_mem) simp
  ultimately show ?thesis by (simp only: isDigit_def)
qed

lemma showNat_digits: "c \<in> set (showNat n) \<Longrightarrow> isDigit c"
proof (induction n rule: showNat.induct)
  case (1 n)
  show ?case
  proof (cases "n < 10")
    case True
    with "1.prems" show ?thesis by (simp add: showNat.simps [of n] digitChar_isDigit)
  next
    case False
    with "1.prems" have "c \<in> set (showNat (n div 10)) \<or> c = digitChar (n mod 10)"
      by (auto simp: showNat.simps [of n])
    then show ?thesis
    proof
      assume "c \<in> set (showNat (n div 10))"
      with False "1.IH" show ?thesis by simp
    next
      assume "c = digitChar (n mod 10)"
      then show ?thesis by (simp add: digitChar_isDigit)
    qed
  qed
qed

lemma showNat_nonempty: "showNat n \<noteq> []"
  by (simp add: showNat.simps [of n])

lemma showNat_inj: "showNat n = showNat m \<Longrightarrow> n = m"
proof (induction n arbitrary: m rule: showNat.induct)
  case (1 n)
  show ?case
  proof (cases "n < 10")
    case n: True
    show ?thesis
    proof (cases "m < 10")
      case True
      with n "1.prems" have "digitChar n = digitChar m"
        by (simp add: showNat.simps [of n] showNat.simps [of m])
      with n True show ?thesis by (intro digitChar_inj) simp_all
    next
      case False
      with n "1.prems" have "[digitChar n] = showNat (m div 10) @ [digitChar (m mod 10)]"
        by (simp add: showNat.simps [of n] showNat.simps [of m])
      then have "showNat (m div 10) = []" by simp
      with showNat_nonempty show ?thesis by blast
    qed
  next
    case n: False
    show ?thesis
    proof (cases "m < 10")
      case True
      with n "1.prems" have "showNat (n div 10) @ [digitChar (n mod 10)] = [digitChar m]"
        by (simp add: showNat.simps [of n] showNat.simps [of m])
      then have "showNat (n div 10) = []" by simp
      with showNat_nonempty show ?thesis by blast
    next
      case False
      with n "1.prems" have e: "showNat (n div 10) = showNat (m div 10)"
        "digitChar (n mod 10) = digitChar (m mod 10)"
        by (simp_all add: showNat.simps [of n] showNat.simps [of m])
      from "1.IH" [OF n e(1)] have q: "n div 10 = m div 10" .
      from e(2) have r: "n mod 10 = m mod 10" by (intro digitChar_inj) simp_all
      have "n = 10 * (n div 10) + n mod 10" by simp
      also have "\<dots> = 10 * (m div 10) + m mod 10" using q r by simp
      also have "\<dots> = m" by simp
      finally show ?thesis .
    qed
  qed
qed

lemma takeWhile_showNat: "stopsDigits r \<Longrightarrow> takeWhile isDigit (showNat n @ r) = showNat n"
proof -
  assume "stopsDigits r"
  then have "takeWhile isDigit r = []" by (cases r) (simp_all add: stopsDigits_def)
  moreover have "takeWhile isDigit (showNat n @ r) = showNat n @ takeWhile isDigit r"
    by (rule takeWhile_append2) (rule showNat_digits)
  ultimately show ?thesis by simp
qed

lemma showNat_delimited:
  assumes "showNat n @ r1 = showNat m @ r2" and "stopsDigits r1" and "stopsDigits r2"
  shows "n = m \<and> r1 = r2"
proof -
  from assms(1) have "takeWhile isDigit (showNat n @ r1) = takeWhile isDigit (showNat m @ r2)"
    by simp
  with assms(2,3) have e: "showNat n = showNat m" by (simp add: takeWhile_showNat)
  with assms(1) have "r1 = r2" by simp
  with e showNat_inj show ?thesis by blast
qed

lemma showNat_head: "\<exists>x xs. showNat n = x # xs \<and> isDigit x"
proof -
  obtain x xs where e: "showNat n = x # xs" using showNat_nonempty [of n] by (cases "showNat n") auto
  then have "x \<in> set (showNat n)" by simp
  then have "isDigit x" by (rule showNat_digits)
  with e show ?thesis by blast
qed

lemma jsonEscape_head: "\<exists>x xs. jsonEscape c = x # xs \<and> x \<noteq> CHR 0x22"
  by (simp add: jsonEscape_def)

lemma control_code_inj:
  assumes "(of_char a :: nat) < 32" and "(of_char b :: nat) < 32"
    and "digitChar (of_char a div 16) = digitChar (of_char b div 16)"
    and "digitChar (of_char a mod 16) = digitChar (of_char b mod 16)"
  shows "a = b"
proof -
  from assms(1,2,3) have q: "(of_char a :: nat) div 16 = of_char b div 16"
    by (intro digitChar_inj) simp_all
  from assms(4) have r: "(of_char a :: nat) mod 16 = of_char b mod 16"
    by (intro digitChar_inj) simp_all
  have "(of_char a :: nat) = 16 * (of_char a div 16) + of_char a mod 16" by simp
  also have "\<dots> = 16 * (of_char b div 16) + of_char b mod 16" using q r by simp
  also have "\<dots> = of_char b" by simp
  finally show ?thesis by simp
qed

lemma jsonEscape_prefix_free: "jsonEscape a @ r1 = jsonEscape b @ r2 \<Longrightarrow> a = b"
  by (auto simp: jsonEscape_def split: if_splits intro: control_code_inj)

lemma escaped_delimited:
  "concat (map jsonEscape s1) @ CHR 0x22 # r1 = concat (map jsonEscape s2) @ CHR 0x22 # r2
   \<Longrightarrow> s1 = s2 \<and> r1 = r2"
proof (induction s1 arbitrary: s2)
  case Nil
  show ?case
  proof (cases s2)
    case Nil
    with Nil.prems show ?thesis by simp
  next
    case (Cons b s2')
    obtain x xs where "jsonEscape b = x # xs" "x \<noteq> CHR 0x22" using jsonEscape_head by blast
    with Nil.prems Cons show ?thesis by simp
  qed
next
  case (Cons a s1')
  show ?case
  proof (cases s2)
    case Nil
    obtain x xs where "jsonEscape a = x # xs" "x \<noteq> CHR 0x22" using jsonEscape_head by blast
    with Cons.prems Nil show ?thesis by simp
  next
    case (Cons b s2')
    with Cons.prems have e: "jsonEscape a @ (concat (map jsonEscape s1') @ CHR 0x22 # r1)
        = jsonEscape b @ (concat (map jsonEscape s2') @ CHR 0x22 # r2)"
      by simp
    then have ab: "a = b" by (rule jsonEscape_prefix_free)
    with e have "concat (map jsonEscape s1') @ CHR 0x22 # r1
        = concat (map jsonEscape s2') @ CHR 0x22 # r2" by simp
    from Cons.IH [OF this] ab Cons show ?thesis by simp
  qed
qed

lemma jsonQuote_delimited: "jsonQuote s1 @ r1 = jsonQuote s2 @ r2 \<Longrightarrow> s1 = s2 \<and> r1 = r2"
  using escaped_delimited [of s1 r1 s2 r2] by (simp add: jsonQuote_def)

lemma endsCell_stopsDigits: "endsCell r \<Longrightarrow> stopsDigits r"
  by (auto simp: endsCell_def stopsDigits_def isDigit_def)

lemma numberToString_delimited:
  assumes "numberToString n @ r1 = numberToString m @ r2" and "endsCell r1" and "endsCell r2"
  shows "n = m \<and> r1 = r2"
proof -
  obtain x xs where hn: "showNat (nat n) = x # xs" "isDigit x" using showNat_head by blast
  obtain y ys where hm: "showNat (nat m) = y # ys" "isDigit y" using showNat_head by blast
  have minus: "\<not> isDigit (CHR ''-'')" by (simp add: isDigit_def)
  note sd = endsCell_stopsDigits [OF assms(2)] endsCell_stopsDigits [OF assms(3)]
  show ?thesis
  proof (cases "n < 0")
    case n: True
    show ?thesis
    proof (cases "m < 0")
      case True
      with n assms(1) have "showNat (nat (- n)) @ r1 = showNat (nat (- m)) @ r2"
        by (simp add: numberToString_def)
      from showNat_delimited [OF this sd] n True show ?thesis by auto
    next
      case False
      with n assms(1) hm minus show ?thesis by (auto simp: numberToString_def)
    qed
  next
    case n: False
    show ?thesis
    proof (cases "m < 0")
      case True
      with n assms(1) hn minus show ?thesis by (auto simp: numberToString_def)
    next
      case False
      with n assms(1) have "showNat (nat n) @ r1 = showNat (nat m) @ r2"
        by (simp add: numberToString_def)
      from showNat_delimited [OF this sd] n False show ?thesis by auto
    qed
  qed
qed

lemma numberToString_head:
  "\<exists>x xs. numberToString n = x # xs \<and> (isDigit x \<or> x = CHR ''-'')"
  using showNat_head [of "nat n"] by (auto simp: numberToString_def)

lemma jsonCell_head:
  assumes "plainCell c"
  shows "\<exists>x xs. jsonCell c = x # xs \<and> (x = CHR 0x22 \<or> isDigit x \<or> x = CHR ''-'' \<or> x = CHR ''t'')"
proof (cases c)
  case (JNum n)
  then show ?thesis using numberToString_head [of n] by auto
next
  case (JStr s)
  then show ?thesis by (simp add: jsonQuote_def)
next
  case (JBool b)
  with assms show ?thesis by (simp add: plainCell_def)
qed (use assms in \<open>simp_all add: plainCell_def\<close>)

lemma jsonCell_delimited:
  assumes "jsonCell c1 @ r1 = jsonCell c2 @ r2" and "plainCell c1" and "plainCell c2"
    and "endsCell r1" and "endsCell r2"
  shows "c1 = c2 \<and> r1 = r2"
proof (cases c1)
  case s1: (JStr s1)
  show ?thesis
  proof (cases c2)
    case (JStr s2)
    with s1 assms(1) jsonQuote_delimited [of s1 r1 s2 r2] show ?thesis by simp
  next
    case (JNum m)
    with s1 assms(1) numberToString_head [of m] show ?thesis
      by (auto simp: jsonQuote_def isDigit_def)
  next
    case (JBool b)
    with s1 assms(1,3) show ?thesis by (auto simp: jsonQuote_def plainCell_def)
  qed (use assms(3) in \<open>simp_all add: plainCell_def\<close>)
next
  case n1: (JNum n)
  show ?thesis
  proof (cases c2)
    case (JStr s2)
    with n1 assms(1) numberToString_head [of n] show ?thesis
      by (auto simp: jsonQuote_def isDigit_def)
  next
    case (JNum m)
    with n1 assms(1) numberToString_delimited [OF _ assms(4,5), of n m] show ?thesis by simp
  next
    case (JBool b)
    with n1 assms(1,3) numberToString_head [of n] show ?thesis
      by (auto simp: plainCell_def isDigit_def)
  qed (use assms(3) in \<open>simp_all add: plainCell_def\<close>)
next
  case b1: (JBool b1)
  show ?thesis
  proof (cases c2)
    case (JStr s2)
    with b1 assms(1,2) show ?thesis by (auto simp: jsonQuote_def plainCell_def)
  next
    case (JNum m)
    with b1 assms(1,2) numberToString_head [of m] show ?thesis
      by (auto simp: plainCell_def isDigit_def)
  next
    case (JBool b2)
    with b1 assms(1,2,3) show ?thesis by (auto simp: plainCell_def)
  qed (use assms(3) in \<open>simp_all add: plainCell_def\<close>)
qed (use assms(2) in \<open>simp_all add: plainCell_def\<close>)

lemma jsonRest_endsCell: "endsCell (jsonRest cs)"
  by (cases cs) (simp_all add: endsCell_def)

lemma jsonRest_inj:
  assumes "jsonRest a = jsonRest b"
    and "\<And>c. c \<in> set a \<Longrightarrow> plainCell c" and "\<And>c. c \<in> set b \<Longrightarrow> plainCell c"
  shows "a = b"
  using assms
proof (induction a arbitrary: b)
  case Nil
  then show ?case by (cases b) simp_all
next
  case (Cons c cs)
  show ?case
  proof (cases b)
    case Nil
    with Cons.prems(1) show ?thesis by simp
  next
    case b: (Cons d ds)
    with Cons.prems(1) have e: "jsonCell c @ jsonRest cs = jsonCell d @ jsonRest ds" by simp
    have pc: "plainCell c" and pd: "plainCell d" using Cons.prems(2,3) b by simp_all
    from jsonCell_delimited [OF e pc pd jsonRest_endsCell jsonRest_endsCell]
    have cd: "c = d" and rest: "jsonRest cs = jsonRest ds" by simp_all
    have "cs = ds"
    proof (rule Cons.IH [OF rest])
      fix x assume "x \<in> set cs" then show "plainCell x" using Cons.prems(2) by simp
    next
      fix x assume "x \<in> set ds" then show "plainCell x" using Cons.prems(3) b by simp
    qed
    with cd b show ?thesis by simp
  qed
qed

lemma JSON_stringify_Cons: "JSON_stringify (c # cs) = CHR ''['' # jsonCell c @ jsonRest cs"
proof -
  have "jsonElements (c # cs) @ '']'' = jsonCell c @ jsonRest cs"
    by (induction cs arbitrary: c) simp_all
  then show ?thesis by (simp add: JSON_stringify_def)
qed

lemma JSON_stringify_inj:
  assumes "JSON_stringify a = JSON_stringify b"
    and "\<And>c. c \<in> set a \<Longrightarrow> plainCell c" and "\<And>c. c \<in> set b \<Longrightarrow> plainCell c"
  shows "a = b"
proof (cases a)
  case a: Nil
  show ?thesis
  proof (cases b)
    case Nil
    with a show ?thesis by simp
  next
    case (Cons d ds)
    with assms(3) have "plainCell d" by simp
    from jsonCell_head [OF this] obtain x xs where "jsonCell d = x # xs" "x \<noteq> CHR '']''"
      by (auto simp: isDigit_def)
    with a Cons assms(1) show ?thesis by (simp add: JSON_stringify_Cons) (simp add: JSON_stringify_def)
  qed
next
  case a: (Cons c cs)
  show ?thesis
  proof (cases b)
    case Nil
    from a assms(2) have "plainCell c" by simp
    from jsonCell_head [OF this] obtain x xs where "jsonCell c = x # xs" "x \<noteq> CHR '']''"
      by (auto simp: isDigit_def)
    with a Nil assms(1) show ?thesis by (simp add: JSON_stringify_Cons) (simp add: JSON_stringify_def)
  next
    case b: (Cons d ds)
    with a assms(1) have "jsonRest (c # cs) = jsonRest (d # ds)"
      by (simp add: JSON_stringify_Cons)
    from jsonRest_inj [OF this] assms(2,3) a b show ?thesis by simp
  qed
qed

section \<open>C2: duplicate rows\<close>

lemma keepNew_keys:
  "distinct (map JSON_stringify (keepNew seen rows))
   \<and> JSON_stringify ` set (keepNew seen rows) = JSON_stringify ` set rows - seen"
proof (induction rows arbitrary: seen)
  case Nil
  show ?case by simp
next
  case (Cons row rows)
  show ?case
  proof (cases "JSON_stringify row \<in> seen")
    case True
    with Cons [of seen] show ?thesis by auto
  next
    case False
    with Cons [of "insert (JSON_stringify row) seen"] show ?thesis by auto
  qed
qed

lemma keepNew_count: "length (keepNew {} rows) = card (JSON_stringify ` set rows)"
proof -
  have "length (keepNew {} rows) = length (map JSON_stringify (keepNew {} rows))" by simp
  also have "\<dots> = card (set (map JSON_stringify (keepNew {} rows)))"
    using keepNew_keys [of "{}" rows] by (simp only: distinct_card)
  also have "\<dots> = card (JSON_stringify ` set rows)"
    using keepNew_keys [of "{}" rows] by simp
  finally show ?thesis .
qed

lemma keepNew_distinct: "distinct (keepNew seen rows)"
  using keepNew_keys [of seen rows] by (simp add: distinct_map)

lemma keepNew_snoc:
  "keepNew seen (rows @ [row]) =
     keepNew seen rows @
       (if JSON_stringify row \<in> seen \<union> JSON_stringify ` set rows then [] else [row])"
  by (induction rows arbitrary: seen) auto

lemma firstOccurrences_Nil [simp]: "firstOccurrences [] = []"
  by (simp add: firstOccurrences_def)

lemma firstOccurrences_snoc:
  "firstOccurrences (xs @ [x]) = firstOccurrences xs @ (if x \<in> set xs then [] else [x])"
proof -
  let ?keep = "\<lambda>i. (xs @ [x]) ! i \<notin> set (take i (xs @ [x]))"
  have f: "filter ?keep [0..<length xs] = filter (\<lambda>i. xs ! i \<notin> set (take i xs)) [0..<length xs]"
    by (rule filter_cong) (auto simp: nth_append)
  have m: "map (\<lambda>i. (xs @ [x]) ! i) (filter (\<lambda>i. xs ! i \<notin> set (take i xs)) [0..<length xs])
      = map (\<lambda>i. xs ! i) (filter (\<lambda>i. xs ! i \<notin> set (take i xs)) [0..<length xs])"
    by (rule map_cong) (auto simp: nth_append)
  have l: "?keep (length xs) = (x \<notin> set xs)" by simp
  have "firstOccurrences (xs @ [x])
      = map (\<lambda>i. (xs @ [x]) ! i) (filter ?keep ([0..<length xs] @ [length xs]))"
    by (simp add: firstOccurrences_def)
  also have "\<dots> = map (\<lambda>i. (xs @ [x]) ! i) (filter ?keep [0..<length xs])
      @ map (\<lambda>i. (xs @ [x]) ! i) (filter ?keep [length xs])"
    by (simp only: filter_append map_append)
  also have "map (\<lambda>i. (xs @ [x]) ! i) (filter ?keep [0..<length xs]) = firstOccurrences xs"
    by (simp only: f m firstOccurrences_def)
  also have "map (\<lambda>i. (xs @ [x]) ! i) (filter ?keep [length xs]) = (if x \<in> set xs then [] else [x])"
    using l by simp
  finally show ?thesis .
qed

lemma keepNew_firstOccurrences:
  "inj_on JSON_stringify (set rows) \<Longrightarrow> keepNew {} rows = firstOccurrences rows"
proof (induction rows rule: rev_induct)
  case Nil
  show ?case by simp
next
  case (snoc row rows)
  from snoc.prems have inj: "inj_on JSON_stringify (set rows)"
    by (auto simp: inj_on_def)
  from snoc.prems have "JSON_stringify row \<in> JSON_stringify ` set rows \<longleftrightarrow> row \<in> set rows"
    by (auto simp: inj_on_def)
  with snoc.IH [OF inj] show ?case by (simp add: keepNew_snoc firstOccurrences_snoc)
qed

lemma JSON_stringify_inj_on:
  assumes "\<And>row c. row \<in> set rows \<Longrightarrow> c \<in> set row \<Longrightarrow> plainCell c"
  shows "inj_on JSON_stringify (set rows)"
proof (rule inj_onI)
  fix a b assume "a \<in> set rows" "b \<in> set rows" "JSON_stringify a = JSON_stringify b"
  with assms show "a = b" by (intro JSON_stringify_inj) blast+
qed

lemma removed_count:
  "snd (applyOptions opts tb) = snd (dedupStage opts (dataRowsOf tb))"
proof (cases tb)
  case Nil
  then show ?thesis by (simp add: applyOptions_def dataRowsOf_def dedupStage_def)
next
  case (Cons h rs)
  then show ?thesis
    by (cases rs) (simp_all add: applyOptions_def dataRowsOf_def dedupStage_def split: prod.splits)
qed

lemma emptyRowStage_distinct: "distinct rows \<Longrightarrow> distinct (emptyRowStage opts rows)"
  by (simp add: emptyRowStage_def)

text \<open>
  Claim C2, as amended. With remove-duplicates enabled, \<open>duplicateRowsRemoved\<close> is the
  number of projected data rows minus the number of their distinct keys; two projected
  rows have the same key exactly when they are equal; the duplicate stage keeps the first
  occurrence of each row, in the original order, and the empty-row stage and the text
  transforms run on its output; and when no text-transform option is enabled, no two data
  rows of the output are equal.
\<close>

theorem duplicates_removed:
  assumes "removeDuplicates opts" and "cleanData d t opts = Inr r"
    and "data d = Some rows" and "headers d = Some dh" and "headers t = Some th"
    and "projected = dataRowsOf (filterColumns (fst (findColumns dh th)) rows)"
  shows "duplicateRowsRemoved r
           = int (length projected) - int (card (JSON_stringify ` set projected))
    \<and> (\<forall>a \<in> set projected. \<forall>b \<in> set projected.
          (JSON_stringify a = JSON_stringify b) = (a = b))
    \<and> dataRowsOf (cleanedData r)
         = textStage opts (emptyRowStage opts (firstOccurrences projected))
    \<and> (\<not> anyTextOption opts \<longrightarrow> distinct (dataRowsOf (cleanedData r)))"
proof -
  let ?F = "filterColumns (fst (findColumns dh th)) rows"
  from assms(2) obtain trows where tr: "data t = Some trows"
    by (auto simp: cleanData_def split: option.splits)
  from cleanData_present [OF assms(3) tr assms(4,5), of opts] assms(2)
  have cd: "cleanedData r = fst (applyOptions opts ?F)"
    and rm: "duplicateRowsRemoved r = snd (applyOptions opts ?F)"
    by (auto simp: findColumns_eq)
  have plain: "plainCell c" if "row \<in> set projected" "c \<in> set row" for row c
  proof -
    from that(1) assms(6) dataRowsOf_subset [of ?F] have "row \<in> set ?F" by blast
    from filterColumns_plain [OF this that(2)] show ?thesis .
  qed
  then have inj: "inj_on JSON_stringify (set projected)" by (rule JSON_stringify_inj_on)
  have stage: "dedupStage opts projected
      = (firstOccurrences projected,
         int (length projected) - int (card (JSON_stringify ` set projected)))"
    using assms(1) keepNew_firstOccurrences [OF inj] keepNew_count [of projected]
    by (simp add: dedupStage_def dedupLoop_eq)
  have count: "duplicateRowsRemoved r
      = int (length projected) - int (card (JSON_stringify ` set projected))"
    using rm removed_count [of opts ?F] stage assms(6) by simp
  have keys: "\<forall>a \<in> set projected. \<forall>b \<in> set projected.
      (JSON_stringify a = JSON_stringify b) = (a = b)"
    using inj by (auto simp: inj_on_def)
  have out: "dataRowsOf (cleanedData r)
      = textStage opts (emptyRowStage opts (firstOccurrences projected))"
    using cd dataRowsOf_cleaned [of opts ?F] stage assms(6) by simp
  have "distinct (firstOccurrences projected)"
    using keepNew_distinct [of "{}" projected] keepNew_firstOccurrences [OF inj] by simp
  then have "distinct (emptyRowStage opts (firstOccurrences projected))"
    by (rule emptyRowStage_distinct)
  then have dist: "\<not> anyTextOption opts \<longrightarrow> distinct (dataRowsOf (cleanedData r))"
    using out by (simp add: textStage_def)
  from count keys out dist show ?thesis by (intro conjI)
qed

text \<open>
  Claim C2, the amended statement at a table whose third row repeats the first on the
  kept columns.
\<close>

theorem duplicates_removed_witness:
  "removeDuplicates (noOptions\<lparr>removeDuplicates := True\<rparr>)
   \<and> cleanData (parsedFile [''Name'', ''Age'', ''Extra'']
          [[JStr ''Alice'', JStr ''30'', JStr ''x''], [JStr ''Bob'', JNum 0, JStr ''y''],
           [JStr ''Alice'', JStr ''30'', JStr ''z'']])
        (parsedFile [''Name'', ''Age''] []) (noOptions\<lparr>removeDuplicates := True\<rparr>)
     = Inr \<lparr>totalRowsCleaned = 2, columnsDeleted = 1, duplicateRowsRemoved = 1,
            cleanedData = [[JStr ''Name'', JStr ''Age''], [JStr ''Alice'', JStr ''30''],
                           [JStr ''Bob'', JStr '''']]\<rparr>
   \<and> firstOccurrences [[JStr ''Alice'', JStr ''30''], [JStr ''Bob'', JStr ''''], [JStr ''Alice'', JStr ''30'']]
     = [[JStr ''Alice'', JStr ''30''], [JStr ''Bob'', JStr '''']]
   \<and> (1::int) = int (length [[JStr ''Alice'', JStr ''30''], [JStr ''Bob'', JStr ''''], [JStr ''Alice'', JStr ''30'']])
       - int (card (JSON_stringify ` set [[JStr ''Alice'', JStr ''30''], [JStr ''Bob'', JStr ''''], [JStr ''Alice'', JStr ''30'']]))
   \<and> distinct (dataRowsOf [[JStr ''Name'', JStr ''Age''], [JStr ''Alice'', JStr ''30''], [JStr ''Bob'', JStr '''']])"
proof -
  let ?o = "noOptions\<lparr>removeDuplicates := True\<rparr>"
  let ?d = "parsedFile [''Name'', ''Age'', ''Extra'']
          [[JStr ''Alice'', JStr ''30'', JStr ''x''], [JStr ''Bob'', JNum 0, JStr ''y''],
           [JStr ''Alice'', JStr ''30'', JStr ''z'']]"
  let ?P = "[[JStr ''Alice'', JStr ''30''], [JStr ''Bob'', JStr ''''], [JStr ''Alice'', JStr ''30'']]"
  have h: "removeDuplicates ?o" by simp
  have e: "cleanData ?d (parsedFile [''Name'', ''Age''] []) ?o
     = Inr \<lparr>totalRowsCleaned = 2, columnsDeleted = 1, duplicateRowsRemoved = 1,
            cleanedData = [[JStr ''Name'', JStr ''Age''], [JStr ''Alice'', JStr ''30''],
                           [JStr ''Bob'', JStr '''']]\<rparr>"
    by code_simp
  have d1: "data ?d = Some ([JStr ''Name'', JStr ''Age'', JStr ''Extra''] #
          [[JStr ''Alice'', JStr ''30'', JStr ''x''], [JStr ''Bob'', JNum 0, JStr ''y''],
           [JStr ''Alice'', JStr ''30'', JStr ''z'']])"
    and d2: "headers ?d = Some [''Name'', ''Age'', ''Extra'']"
    and t2: "headers (parsedFile [''Name'', ''Age''] []) = Some [''Name'', ''Age'']"
    by (simp_all add: parsedFile_def)
  have p: "?P = dataRowsOf (filterColumns (fst (findColumns [''Name'', ''Age'', ''Extra''] [''Name'', ''Age'']))
      ([JStr ''Name'', JStr ''Age'', JStr ''Extra''] #
          [[JStr ''Alice'', JStr ''30'', JStr ''x''], [JStr ''Bob'', JNum 0, JStr ''y''],
           [JStr ''Alice'', JStr ''30'', JStr ''z'']]))"
    by code_simp
  have f: "firstOccurrences ?P = [[JStr ''Alice'', JStr ''30''], [JStr ''Bob'', JStr '''']]"
    by code_simp
  have n: "\<not> anyTextOption ?o" by (simp add: anyTextOption_def noOptions_def)
  note inst = duplicates_removed [OF h e d1 d2 t2 p]
  from inst have c: "duplicateRowsRemoved \<lparr>totalRowsCleaned = 2, columnsDeleted = 1, duplicateRowsRemoved = 1,
            cleanedData = [[JStr ''Name'', JStr ''Age''], [JStr ''Alice'', JStr ''30''],
                           [JStr ''Bob'', JStr '''']]\<rparr>
      = int (length ?P) - int (card (JSON_stringify ` set ?P))"
    by (rule conjunct1)
  from inst n have di: "distinct (dataRowsOf (cleanedData \<lparr>totalRowsCleaned = 2, columnsDeleted = 1, duplicateRowsRemoved = 1,
            cleanedData = [[JStr ''Name'', JStr ''Age''], [JStr ''Alice'', JStr ''30''],
                           [JStr ''Bob'', JStr '''']]\<rparr>))"
    by blast
  have c': "(1::int) = int (length ?P) - int (card (JSON_stringify ` set ?P))"
    using c by (simp only: CleaningResult.simps)
  have di': "distinct (dataRowsOf [[JStr ''Name'', JStr ''Age''], [JStr ''Alice'', JStr ''30''], [JStr ''Bob'', JStr '''']])"
    using di by (simp only: CleaningResult.simps)
  from h e f c' di' show ?thesis by (intro conjI)
qed

text \<open>
  Claim C2 as stated fails when a text transform makes two kept rows equal: \<open>"a"\<close> and
  \<open>"a "\<close> differ at the duplicate stage, and trimming then makes them the same row.
\<close>

theorem duplicates_after_trim_counterexample:
  "cleanData (parsedFile [''Name''] [[JStr ''a''], [JStr ''a '']]) (parsedFile [''Name''] [])
       (noOptions\<lparr>removeDuplicates := True, trimWhitespace := True\<rparr>)
     = Inr \<lparr>totalRowsCleaned = 2, columnsDeleted = 0, duplicateRowsRemoved = 0,
            cleanedData = [[JStr ''Name''], [JStr ''a''], [JStr ''a'']]\<rparr>
   \<and> \<not> distinct (dataRowsOf [[JStr ''Name''], [JStr ''a''], [JStr ''a'']])"
proof -
  have a: "cleanData (parsedFile [''Name''] [[JStr ''a''], [JStr ''a '']]) (parsedFile [''Name''] [])
       (noOptions\<lparr>removeDuplicates := True, trimWhitespace := True\<rparr>)
     = Inr \<lparr>totalRowsCleaned = 2, columnsDeleted = 0, duplicateRowsRemoved = 0,
            cleanedData = [[JStr ''Name''], [JStr ''a''], [JStr ''a'']]\<rparr>"
    by code_simp
  have b: "\<not> distinct (dataRowsOf [[JStr ''Name''], [JStr ''a''], [JStr ''a'']])"
    by (simp add: dataRowsOf_def)
  show ?thesis using a b by simp
qed

end
